theory Spec2Isabelle
  imports Main "HOL-Library.Word" "HOL-Library.Signed_Division"
begin

unbundle bit_operations_syntax

section \<open>Data model of the chain-state core (main.cpp)\<close>

text \<open>
  Machine integers are words: \<open>int64_t\<close> is a \<open>64 word\<close> read with \<open>sint\<close>,
  \<open>unsigned int\<close> a \<open>32 word\<close> read with \<open>uint\<close>, \<open>int\<close> a \<open>32 word\<close> read with
  \<open>sint\<close>, \<open>uint256\<close> a \<open>256 word\<close>. \<open>CBigNum\<close> is an unbounded \<open>int\<close>.
\<close>

type_synonym uint256 = "256 word"
type_synonym int64 = "64 word"
type_synonym uint32 = "32 word"
type_synonym int32 = "32 word"
type_synonym bytes = "8 word list"

record COutPoint =
  hash :: uint256
  n :: uint32

record CTxIn =
  prevout :: COutPoint
  scriptSig :: bytes
  nSequence :: uint32

record CTxOut =
  nValue :: int64
  scriptPubKey :: bytes

record CTransaction =
  tx_nVersion :: int32
  tx_nTime :: uint32
  vin :: "CTxIn list"
  vout :: "CTxOut list"
  nLockTime :: uint32

record CBlock =
  nVersion :: int32
  hashPrevBlock :: uint256
  hashMerkleRoot :: uint256
  nTime :: uint32
  nBits :: uint32
  nNonce :: uint32
  vtx :: "CTransaction list"
  vchBlockSig :: bytes

datatype txnouttype =
  TX_NONSTANDARD | TX_PUBKEY | TX_PUBKEYHASH | TX_SCRIPTHASH | TX_MULTISIG | TX_NULL_DATA

text \<open>
  The constants that main.cpp uses and the headers declare. The headers are not part of
  the sources at hand, so the constants are parameters of the model.
\<close>

record params =
  COIN :: int64
  CENT :: int64
  MAX_MONEY :: int64
  MIN_TX_FEE :: int64
  MIN_RELAY_TX_FEE :: int64
  MAX_BLOCK_SIZE :: uint32
  MAX_BLOCK_SIZE_GEN :: uint32
  MAX_BLOCK_SIGOPS :: uint32
  FUTURE_DRIFT :: int64
  DEVELOPER_PAYMENT_V2 :: int64
  CURRENT_VERSION :: int32
  LAST_POW_BLOCK :: int32
  MNPAYEE_MAX_BLOCK_AGE :: int64

text \<open>
  The collaborators that main.cpp calls and other modules implement (serialization,
  hashing, the script solver, the key class, the network-adjusted clock, the compact
  encoding of \<open>CBigNum\<close>, the proof-of-stake target limit), with the global \<open>fTestNet\<close>.
\<close>

record env =
  fTestNet :: bool
  GetSerializeSize_tx :: "CTransaction \<Rightarrow> uint32"
  GetSerializeSize_block :: "CBlock \<Rightarrow> uint32"
  GetHash_tx :: "CTransaction \<Rightarrow> uint256"
  GetHash_block :: "CBlock \<Rightarrow> uint256"
  GetSigOpCount :: "bytes \<Rightarrow> uint32"
  Solver :: "bytes \<Rightarrow> (txnouttype \<times> bytes list) option"
  SetPubKey :: "bytes \<Rightarrow> bool"
  Verify :: "bytes \<Rightarrow> uint256 \<Rightarrow> bytes \<Rightarrow> bool"
  BuildMerkleTree :: "CBlock \<Rightarrow> uint256"
  GetAdjustedTime :: int64
  SetCompact :: "uint32 \<Rightarrow> int"
  GetCompact :: "int \<Rightarrow> uint32"
  GetPOSLimit :: "int32 \<Rightarrow> int"

text \<open>
  A validation function of the source returns \<open>false\<close> through \<open>error(msg)\<close> or through
  \<open>DoS(n, error(msg))\<close>, which also adds \<open>n\<close> to the misbehaviour score of the object.
  The model returns the failure as a value.
\<close>

datatype failure = Failure (dos: int) (msg: string)

type_synonym verdict = "failure + unit"

definition DoS :: "int \<Rightarrow> string \<Rightarrow> verdict" where
  "DoS k m = Inl (Failure k m)"

definition error :: "string \<Rightarrow> verdict" where
  "error m = Inl (Failure 0 m)"

definition accepted :: "verdict \<Rightarrow> bool" where
  "accepted v = (case v of Inl _ \<Rightarrow> False | Inr _ \<Rightarrow> True)"

subsection \<open>Classification of transactions and blocks\<close>

text \<open>Modelled from the spec: \<open>COutPoint::IsNull\<close> (main.h is missing). "IsNull iff
  txid == 0 and index == 0xFFFFFFFF."\<close>

definition IsNull :: "COutPoint \<Rightarrow> bool" where
  "IsNull p = (hash p = 0 \<and> n p = 0xFFFFFFFF)"

text \<open>Modelled from the spec: \<open>CTxOut::IsEmpty\<close> (main.h is missing). "IsEmpty iff
  value==0 and script empty."\<close>

definition IsEmpty :: "CTxOut \<Rightarrow> bool" where
  "IsEmpty out = (nValue out = 0 \<and> scriptPubKey out = [])"

text \<open>Modelled from the spec: \<open>CTransaction::IsCoinBase\<close> (main.h is missing).
  "Coinbase: |vin|==1, vin[0].prevout.IsNull."\<close>

definition IsCoinBase :: "CTransaction \<Rightarrow> bool" where
  "IsCoinBase tx = (case vin tx of [i] \<Rightarrow> IsNull (prevout i) | _ \<Rightarrow> False)"

text \<open>Modelled from the spec: \<open>CTransaction::IsCoinStake\<close> (main.h is missing).
  "Coinstake: |vin|>=1, |vout|>=2, vout[0].IsEmpty, vout[1].value>0."\<close>

definition IsCoinStake :: "CTransaction \<Rightarrow> bool" where
  "IsCoinStake tx =
     (vin tx \<noteq> [] \<and>
      (case vout tx of o0 # o1 # _ \<Rightarrow> IsEmpty o0 \<and> 0 <s nValue o1 | _ \<Rightarrow> False))"

text \<open>Modelled from the spec: \<open>CBlock::IsProofOfStake\<close> and \<open>CBlock::IsProofOfWork\<close>
  (main.h is missing). "PoS iff |vtx|>=2 and vtx[1].IsCoinStake."\<close>

definition IsProofOfStake :: "CBlock \<Rightarrow> bool" where
  "IsProofOfStake b = (case vtx b of _ # t1 # _ \<Rightarrow> IsCoinStake t1 | _ \<Rightarrow> False)"

definition IsProofOfWork :: "CBlock \<Rightarrow> bool" where
  "IsProofOfWork b = (\<not> IsProofOfStake b)"

text \<open>Modelled from the spec: \<open>MoneyRange\<close> (main.h is missing): a value in
  \<open>[0, MAX_MONEY]\<close>.\<close>

definition MoneyRange :: "params \<Rightarrow> int64 \<Rightarrow> bool" where
  "MoneyRange c v = (0 \<le>s v \<and> v \<le>s MAX_MONEY c)"

section \<open>CBlock::CheckBlockSignature\<close>

text \<open>
  For a proof-of-stake block the signature is checked against the second output of the
  coinstake, \<open>vtx[1].vout[1]\<close>, which exists in every proof-of-stake block. The solver
  returns one solution for a \<open>TX_PUBKEY\<close> script.
\<close>

definition CheckBlockSignature :: "env \<Rightarrow> CBlock \<Rightarrow> bool" where
  "CheckBlockSignature e b =
     (if IsProofOfWork b then vchBlockSig b = []
      else
        (let txout = vout (vtx b ! 1) ! 1 in
         case Solver e (scriptPubKey txout) of
           None \<Rightarrow> False
         | Some (whichType, vSolutions) \<Rightarrow>
             if whichType = TX_PUBKEY then
               (case vSolutions of
                  [] \<Rightarrow> False
                | vchPubKey # _ \<Rightarrow>
                    if \<not> SetPubKey e vchPubKey then False
                    else if vchBlockSig b = [] then False
                    else Verify e vchPubKey (GetHash_block e b) (vchBlockSig b))
             else False))"

section \<open>GetProofOfStakeReward\<close>

text \<open>
  \<open>int64_t\<close> arithmetic wraps; \<open>/\<close> and \<open>%\<close> truncate towards zero (\<open>sdiv\<close>, \<open>smod\<close> on
  the signed values); \<open>>>\<close> on an \<open>int64_t\<close> is the arithmetic shift.
\<close>

definition sdiv64 :: "int64 \<Rightarrow> int64 \<Rightarrow> int64" where
  "sdiv64 a b = word_of_int (sint a sdiv sint b)"

definition g_RewardHalvingPeriod :: int32 where
  "g_RewardHalvingPeriod = 1000000"

definition GetProofOfStakeReward :: "params \<Rightarrow> int64 \<Rightarrow> int64 \<Rightarrow> int32 \<Rightarrow> int64" where
  "GetProofOfStakeReward c nCoinAge nFees nHeight =
     (let nSubsidy =
        (if nHeight <s 5000 then 30 * COIN c
         else if nHeight <s 7000 then 45 * COIN c
         else if nHeight <s 7250 then 190 * COIN c
         else if nHeight <s 8500 then 80 * COIN c
         else if nHeight <s 10000 then 15 * COIN c
         else if nHeight <s 13500 then 30 * COIN c
         else
           (let nSubsidy0 = 40 * COIN c;
                halvings = sint nHeight sdiv sint g_RewardHalvingPeriod;
                nSubsidy1 = (if halvings \<ge> 64 then 0
                             else signed_drop_bit (nat halvings) nSubsidy0)
            in nSubsidy1 -
               sdiv64 (nSubsidy1 * word_of_int (sint nHeight smod sint g_RewardHalvingPeriod))
                      (word_of_int (2 * sint g_RewardHalvingPeriod))))
      in nSubsidy + nFees)"

text \<open>
  The reward as the specification words it for heights from 13500 on, in exact integer
  arithmetic: the base of 40 coins is halved every 1000000 blocks (nothing is left from
  64 halvings on), the result is reduced linearly within the halving window, and the
  fees are added. The arguments are the value of \<open>COIN\<close>, the fees and the height.
\<close>

definition pos_reward_spec :: "int \<Rightarrow> int \<Rightarrow> int \<Rightarrow> int" where
  "pos_reward_spec coin fees h =
     (let s = (if h div 1000000 \<ge> 64 then 0 else drop_bit (nat (h div 1000000)) (40 * coin));
          s' = s - s * (h mod 1000000) div (2 * 1000000)
      in s' + fees)"

section \<open>CTransaction::CheckTransaction\<close>

text \<open>
  The loop over the outputs, with the running total \<open>nValueOut\<close>; \<open>user\<close> says that
  the transaction is neither coinbase nor coinstake.
\<close>

fun CheckTransaction_outputs :: "params \<Rightarrow> bool \<Rightarrow> int64 \<Rightarrow> CTxOut list \<Rightarrow> verdict" where
  "CheckTransaction_outputs c user nValueOut [] = Inr ()"
| "CheckTransaction_outputs c user nValueOut (txout # rest) =
     (if IsEmpty txout \<and> user then DoS 100 ''txout empty for user transaction''
      else if nValue txout <s 0 then DoS 100 ''txout.nValue negative''
      else if MAX_MONEY c <s nValue txout then DoS 100 ''txout.nValue too high''
      else if \<not> MoneyRange c (nValueOut + nValue txout)
        then DoS 100 ''txout total out of range''
      else CheckTransaction_outputs c user (nValueOut + nValue txout) rest)"

text \<open>The loop over the inputs, with the set \<open>vInOutPoints\<close> of the outpoints seen.\<close>

fun duplicate_inputs :: "COutPoint set \<Rightarrow> CTxIn list \<Rightarrow> bool" where
  "duplicate_inputs vInOutPoints [] = False"
| "duplicate_inputs vInOutPoints (txin # rest) =
     (if prevout txin \<in> vInOutPoints then True
      else duplicate_inputs (insert (prevout txin) vInOutPoints) rest)"

definition CheckTransaction :: "env \<Rightarrow> params \<Rightarrow> CTransaction \<Rightarrow> verdict" where
  "CheckTransaction e c tx =
     (if vin tx = [] then DoS 10 ''vin empty''
      else if vout tx = [] then DoS 10 ''vout empty''
      else if MAX_BLOCK_SIZE c < GetSerializeSize_tx e tx then DoS 100 ''size limits failed''
      else
        (case CheckTransaction_outputs c (\<not> IsCoinBase tx \<and> \<not> IsCoinStake tx) 0 (vout tx) of
           Inl f \<Rightarrow> Inl f
         | Inr _ \<Rightarrow>
             if duplicate_inputs {} (vin tx) then error ''duplicate inputs''
             else if IsCoinBase tx then
               (if \<not> fTestNet e \<and>
                   (length (scriptSig (hd (vin tx))) < 2 \<or> 100 < length (scriptSig (hd (vin tx))))
                then DoS 100 ''coinbase script size is invalid''
                else Inr ())
             else if list_ex (\<lambda>txin. IsNull (prevout txin)) (vin tx)
               then DoS 10 ''prevout is null''
             else Inr ()))"

section \<open>CBlock::CheckBlock\<close>

text \<open>Modelled from the spec: \<open>FutureDrift\<close> (main.h is missing). "block.time +
  FUTURE_DRIFT": the time shifted by the constant drift, in \<open>int64_t\<close>.\<close>

definition FutureDrift :: "params \<Rightarrow> int64 \<Rightarrow> int64" where
  "FutureDrift c t = t + FUTURE_DRIFT c"

text \<open>\<open>GetBlockTime\<close> is \<open>(int64_t)nTime\<close>.\<close>

definition GetBlockTime :: "CBlock \<Rightarrow> int64" where
  "GetBlockTime b = ucast (nTime b)"

definition GetLegacySigOpCount :: "env \<Rightarrow> CTransaction \<Rightarrow> uint32" where
  "GetLegacySigOpCount e tx =
     (\<Sum>txin\<leftarrow>vin tx. GetSigOpCount e (scriptSig txin))
     + (\<Sum>txout\<leftarrow>vout tx. GetSigOpCount e (scriptPubKey txout))"

text \<open>The loop "Check transactions": a transaction that fails \<open>CheckTransaction\<close>
  passes its score on.\<close>

fun CheckBlock_transactions :: "env \<Rightarrow> params \<Rightarrow> CBlock \<Rightarrow> CTransaction list \<Rightarrow> verdict" where
  "CheckBlock_transactions e c b [] = Inr ()"
| "CheckBlock_transactions e c b (tx # rest) =
     (case CheckTransaction e c tx of
        Inl f \<Rightarrow> DoS (dos f) ''CheckTransaction failed''
      | Inr _ \<Rightarrow>
          if GetBlockTime b <s ucast (tx_nTime tx)
          then DoS 50 ''block timestamp earlier than transaction timestamp''
          else CheckBlock_transactions e c b rest)"

definition CheckBlock_stake :: "env \<Rightarrow> bool \<Rightarrow> CBlock \<Rightarrow> verdict" where
  "CheckBlock_stake e fCheckSig b =
     (if IsProofOfStake b then
        (if length (vout (vtx b ! 0)) \<noteq> 1 \<or> \<not> IsEmpty (vout (vtx b ! 0) ! 0)
         then DoS 100 ''coinbase output not empty for proof-of-stake block''
         else if vtx b = [] \<or> \<not> IsCoinStake (vtx b ! 1)
         then DoS 100 ''second tx is not coinstake''
         else if list_ex IsCoinStake (drop 2 (vtx b))
         then DoS 100 ''more than one coinstake''
         else if fCheckSig \<and> \<not> CheckBlockSignature e b
         then DoS 100 ''bad proof-of-stake block signature''
         else Inr ())
      else Inr ())"

definition CheckBlock :: "env \<Rightarrow> params \<Rightarrow> bool \<Rightarrow> bool \<Rightarrow> bool \<Rightarrow> CBlock \<Rightarrow> verdict" where
  "CheckBlock e c fCheckPOW fCheckMerkleRoot fCheckSig b =
     (if vtx b = [] \<or> uint (MAX_BLOCK_SIZE c) < int (length (vtx b))
         \<or> MAX_BLOCK_SIZE c < GetSerializeSize_block e b
      then DoS 100 ''size limits failed''
      else if FutureDrift c (GetAdjustedTime e) <s GetBlockTime b
      then error ''block timestamp too far in the future''
      else if vtx b = [] \<or> \<not> IsCoinBase (vtx b ! 0)
      then DoS 100 ''first tx is not coinbase''
      else if list_ex IsCoinBase (drop 1 (vtx b))
      then DoS 100 ''more than one coinbase''
      else if FutureDrift c (ucast (tx_nTime (vtx b ! 0))) <s GetBlockTime b
      then DoS 50 ''coinbase timestamp is too early''
      else
        (case CheckBlock_stake e fCheckSig b of
           Inl f \<Rightarrow> Inl f
         | Inr _ \<Rightarrow>
            (case CheckBlock_transactions e c b (vtx b) of
               Inl f \<Rightarrow> Inl f
             | Inr _ \<Rightarrow>
                 if length (remdups (map (GetHash_tx e) (vtx b))) \<noteq> length (vtx b)
                 then DoS 100 ''duplicate transaction''
                 else if MAX_BLOCK_SIGOPS c < (\<Sum>tx\<leftarrow>vtx b. GetLegacySigOpCount e tx)
                 then DoS 100 ''out-of-bounds SigOpCount''
                 else if fCheckMerkleRoot \<and> hashMerkleRoot b \<noteq> BuildMerkleTree e b
                 then DoS 100 ''hashMerkleRoot mismatch''
                 else Inr ())))"

section \<open>CTransaction::GetMinFee\<close>

datatype GetMinFee_mode = GMF_BLOCK | GMF_RELAY | GMF_SEND

text \<open>The loop of the dust rule: every output below \<open>CENT\<close> sets the fee to the base
  fee.\<close>

fun GetMinFee_dust :: "params \<Rightarrow> int64 \<Rightarrow> int64 \<Rightarrow> CTxOut list \<Rightarrow> int64" where
  "GetMinFee_dust c nBaseFee nMinFee [] = nMinFee"
| "GetMinFee_dust c nBaseFee nMinFee (txout # rest) =
     GetMinFee_dust c nBaseFee (if nValue txout <s CENT c then nBaseFee else nMinFee) rest"

text \<open>
  \<open>nNewBlockSize\<close> is an \<open>unsigned int\<close> sum and wraps; the quotient that scales the fee
  is an \<open>unsigned int\<close> division, converted to \<open>int64_t\<close> for the product.
\<close>

definition GetMinFee ::
  "params \<Rightarrow> CTransaction \<Rightarrow> uint32 \<Rightarrow> GetMinFee_mode \<Rightarrow> uint32 \<Rightarrow> int64" where
  "GetMinFee c tx nBlockSize mode nBytes =
     (let nBaseFee = (if mode = GMF_RELAY then MIN_RELAY_TX_FEE c else MIN_TX_FEE c);
          nNewBlockSize = nBlockSize + nBytes;
          nMinFee0 = (1 + sdiv64 (ucast nBytes) 1000) * nBaseFee;
          nMinFee1 = (if nMinFee0 <s nBaseFee
                      then GetMinFee_dust c nBaseFee nMinFee0 (vout tx) else nMinFee0)
      in if nBlockSize \<noteq> 1 \<and> MAX_BLOCK_SIZE_GEN c div 2 \<le> nNewBlockSize then
           (if MAX_BLOCK_SIZE_GEN c \<le> nNewBlockSize then MAX_MONEY c
            else
              (let nMinFee2 = nMinFee1 *
                     ucast (MAX_BLOCK_SIZE_GEN c div (MAX_BLOCK_SIZE_GEN c - nNewBlockSize))
               in if \<not> MoneyRange c nMinFee2 then MAX_MONEY c else nMinFee2))
         else if \<not> MoneyRange c nMinFee1 then MAX_MONEY c else nMinFee1)"

text \<open>The parts of the fee as the specification names them: the base fee of the mode,
  the fee by size, the fee after the dust rule, and the final clamp to the money range.\<close>

definition base_fee :: "params \<Rightarrow> GetMinFee_mode \<Rightarrow> int64" where
  "base_fee c mode = (if mode = GMF_RELAY then MIN_RELAY_TX_FEE c else MIN_TX_FEE c)"

definition size_fee :: "params \<Rightarrow> GetMinFee_mode \<Rightarrow> uint32 \<Rightarrow> int64" where
  "size_fee c mode nBytes = (1 + word_of_int (uint nBytes div 1000)) * base_fee c mode"

definition dust_fee :: "params \<Rightarrow> CTransaction \<Rightarrow> GetMinFee_mode \<Rightarrow> uint32 \<Rightarrow> int64" where
  "dust_fee c tx mode nBytes =
     (if size_fee c mode nBytes <s base_fee c mode \<and> (\<exists>out \<in> set (vout tx). nValue out <s CENT c)
      then base_fee c mode else size_fee c mode nBytes)"

definition money_clamp :: "params \<Rightarrow> int64 \<Rightarrow> int64" where
  "money_clamp c fee = (if 0 \<le>s fee \<and> fee \<le>s MAX_MONEY c then fee else MAX_MONEY c)"

section \<open>The compact encoding of targets\<close>

text \<open>
  bignum.h is not among the sources, and the model takes \<open>SetCompact\<close> and \<open>GetCompact\<close>
  from the environment. The examples use the compact format of the Bitcoin family, which
  \<open>CBigNum\<close> implements: the high byte of \<open>nBits\<close> is the number of bytes of the
  magnitude, bit \<open>0x00800000\<close> is the sign, and the low 23 bits are the leading bytes
  of the magnitude.
\<close>

definition compact_decode :: "uint32 \<Rightarrow> int" where
  "compact_decode nCompact =
     (let nSize = unat (drop_bit 24 nCompact);
          m = uint (nCompact AND 0x7FFFFF);
          mag = (if nSize \<le> 3 then drop_bit (8 * (3 - nSize)) m
                 else push_bit (8 * (nSize - 3)) m)
      in if bit nCompact 23 then - mag else mag)"

text \<open>The number of bytes of a magnitude in the encoding: one more than the bytes of
  its bits where the top bit of the first byte would be set (it is the sign).\<close>

function num_bytes :: "int \<Rightarrow> nat" where
  "num_bytes k = (if k \<le> 0 then 0 else Suc (num_bytes (k div 256)))"
  by pat_completeness auto
termination
  by (relation "measure nat") auto

declare num_bytes.simps [simp del]

definition compact_encode :: "int \<Rightarrow> uint32" where
  "compact_encode x =
     (let nSize = num_bytes (2 * \<bar>x\<bar>);
          m = (if nSize \<le> 3 then push_bit (8 * (3 - nSize)) \<bar>x\<bar>
               else drop_bit (8 * (nSize - 3)) \<bar>x\<bar>)
      in push_bit 24 (word_of_nat nSize) OR word_of_int m
         OR (if x < 0 then 0x800000 else 0))"

section \<open>The block index\<close>

text \<open>
  A node of the block index. A pointer to a node is modelled by the node itself together
  with the chain of its predecessors, as their fields stand at the time of the call;
  \<open>NULL\<close> is \<open>None\<close>. The header fields that the node copies from the block carry the
  prefix \<open>idx\<close>; \<open>isPoS\<close> is the flag that \<open>CBlockIndex::IsProofOfStake\<close> reads.
\<close>

datatype CBlockIndex = CBlockIndex
  (pprev: "CBlockIndex option")
  (nHeight: int32)
  (nFile: uint32)
  (nBlockPos: uint32)
  (idx_nBits: uint32)
  (idx_nTime: uint32)
  (isPoS: bool)
  (prevoutStake: COutPoint)
  (nStakeTime: uint32)
  (nStakeModifier: "64 word")
  (fGeneratedStakeModifier: bool)
  (nStakeModifierChecksum: uint32)
  (hashProof: uint256)
  (nChainTrust: uint256)
  (nMint: int64)
  (nMoneySupply: int64)

section \<open>GetNextTargetRequired\<close>

definition nTargetTimespan :: int64 where
  "nTargetTimespan = 20 * 60"

definition nTargetSpacing :: uint32 where
  "nTargetSpacing = 1 * 79"

text \<open>The limit of the proof-of-work target, \<open>~uint256(0) >> 20\<close>, which
  \<open>LoadBlockIndex\<close> replaces by \<open>~uint256(0) >> 2\<close> on the test network.\<close>

definition bnProofOfWorkLimit :: "env \<Rightarrow> int" where
  "bnProofOfWorkLimit e = (if fTestNet e then 2 ^ 254 - 1 else 2 ^ 236 - 1)"

text \<open>The walk follows \<open>pprev\<close> while the node has a predecessor and is of the other
  kind; it ends, since every step goes to a predecessor.\<close>

function GetLastBlockIndex :: "CBlockIndex \<Rightarrow> bool \<Rightarrow> CBlockIndex" where
  "GetLastBlockIndex pindex fProofOfStake =
     (case pprev pindex of
        None \<Rightarrow> pindex
      | Some p \<Rightarrow> if isPoS pindex \<noteq> fProofOfStake then GetLastBlockIndex p fProofOfStake
                  else pindex)"
  by pat_completeness auto
termination
proof (relation "measure (\<lambda>(pindex, f). size pindex)")
  show "wf (measure (\<lambda>(pindex :: CBlockIndex, f :: bool). size pindex))" by simp
next
  fix pindex p :: CBlockIndex and fProofOfStake :: bool
  assume "pprev pindex = Some p"
  then show "((p, fProofOfStake), (pindex, fProofOfStake))
             \<in> measure (\<lambda>(pindex, f). size pindex)"
    by (cases pindex) simp
qed

declare GetLastBlockIndex.simps [simp del]

text \<open>\<open>CBlockIndex::GetBlockTime\<close> is \<open>(int64_t)nTime\<close>.\<close>

definition idx_GetBlockTime :: "CBlockIndex \<Rightarrow> int64" where
  "idx_GetBlockTime pindex = ucast (idx_nTime pindex)"

text \<open>
  The retarget proper, from the decoded target of the previous block of the kind and
  the spacing of the two previous blocks: the products and the quotient are \<open>CBigNum\<close>
  operations (the quotient truncates), the factors are \<open>int64_t\<close> values.
\<close>

definition retarget :: "int \<Rightarrow> int \<Rightarrow> int64 \<Rightarrow> int" where
  "retarget bnTargetLimit bnPrev nActualSpacing0 =
     (let nActualSpacing = (if nActualSpacing0 <s 0 then ucast nTargetSpacing
                            else nActualSpacing0);
          nInterval = sdiv64 nTargetTimespan (ucast nTargetSpacing);
          bnNew1 = bnPrev * sint ((nInterval - 1) * ucast nTargetSpacing
                                  + nActualSpacing + nActualSpacing);
          bnNew2 = bnNew1 sdiv sint ((nInterval + 1) * ucast nTargetSpacing)
      in if bnNew2 \<le> 0 \<or> bnNew2 > bnTargetLimit then bnTargetLimit else bnNew2)"

text \<open>
  The target that \<open>GetNextTargetRequired\<close> returns, before its compact encoding.
  \<open>pindexLast\<close> is not \<open>NULL\<close>: the function reads \<open>pindexLast->nHeight\<close> before it
  tests the pointer.
\<close>

definition next_target :: "env \<Rightarrow> CBlockIndex \<Rightarrow> bool \<Rightarrow> int" where
  "next_target e pindexLast fProofOfStake =
     (let bnTargetLimit = (if fProofOfStake then GetPOSLimit e (nHeight pindexLast)
                           else bnProofOfWorkLimit e);
          pindexPrev = GetLastBlockIndex pindexLast fProofOfStake
      in case pprev pindexPrev of
           None \<Rightarrow> bnTargetLimit
         | Some pp \<Rightarrow>
             (let pindexPrevPrev = GetLastBlockIndex pp fProofOfStake
              in case pprev pindexPrevPrev of
                   None \<Rightarrow> bnTargetLimit
                 | Some _ \<Rightarrow>
                     retarget bnTargetLimit (SetCompact e (idx_nBits pindexPrev))
                       (idx_GetBlockTime pindexPrev - idx_GetBlockTime pindexPrevPrev)))"

definition GetNextTargetRequired :: "env \<Rightarrow> CBlockIndex \<Rightarrow> bool \<Rightarrow> uint32" where
  "GetNextTargetRequired e pindexLast fProofOfStake =
     GetCompact e (next_target e pindexLast fProofOfStake)"

text \<open>The spacing that the retarget uses: a negative difference of the block times
  counts as \<open>nTargetSpacing\<close>.\<close>

definition effective_spacing :: "int \<Rightarrow> int" where
  "effective_spacing d = (if d < 0 then 79 else d)"

text \<open>The context of a retarget as the specification names it: the time difference
  of the two previous blocks of the kind (if both exist and the second has a predecessor)
  and the compact target of the previous block of the kind.\<close>

definition actual_spacing :: "CBlockIndex \<Rightarrow> bool \<Rightarrow> int option" where
  "actual_spacing pindexLast fProofOfStake =
     (let pindexPrev = GetLastBlockIndex pindexLast fProofOfStake
      in case pprev pindexPrev of
           None \<Rightarrow> None
         | Some pp \<Rightarrow>
             (let pindexPrevPrev = GetLastBlockIndex pp fProofOfStake
              in case pprev pindexPrevPrev of
                   None \<Rightarrow> None
                 | Some _ \<Rightarrow> Some (uint (idx_nTime pindexPrev) - uint (idx_nTime pindexPrevPrev))))"

definition prior_bits :: "CBlockIndex \<Rightarrow> bool \<Rightarrow> uint32" where
  "prior_bits pindexLast fProofOfStake = idx_nBits (GetLastBlockIndex pindexLast fProofOfStake)"

text \<open>
  bignum.h is not among the sources: what the theorems on the returned target need of
  the compact encoding is stated as a property of the environment. An encoding is
  order-preserving up to a limit if, between two positive targets up to the limit, the
  larger target is never encoded as a compact value that decodes to a smaller target.
\<close>

definition compact_monotone :: "env \<Rightarrow> int \<Rightarrow> bool" where
  "compact_monotone e bnTargetLimit =
     (\<forall>x y. 0 < x \<and> x \<le> y \<and> y \<le> bnTargetLimit
        \<longrightarrow> SetCompact e (GetCompact e x) \<le> SetCompact e (GetCompact e y))"

section \<open>CBlockIndex::GetBlockTrust and CBlock::AddToBlockIndex\<close>

text \<open>\<open>(CBigNum(1) << 256) / (bnTarget + 1)\<close>, as a \<open>uint256\<close>; the quotient of
  \<open>CBigNum\<close> truncates.\<close>

definition GetBlockTrust :: "env \<Rightarrow> CBlockIndex \<Rightarrow> uint256" where
  "GetBlockTrust e pindex =
     (let bnTarget = SetCompact e (idx_nBits pindex)
      in if bnTarget \<le> 0 then 0
         else word_of_int (push_bit 256 1 sdiv (bnTarget + 1)))"

text \<open>Modelled from the spec: \<open>CBlock::GetProofOfStake\<close> (main.h is missing), the
  pair "(prevoutStake, stakeTime)" of a block: the first input of the coinstake and the
  time of the coinstake; a null outpoint and 0 for a proof-of-work block.\<close>

definition GetProofOfStake :: "CBlock \<Rightarrow> COutPoint \<times> uint32" where
  "GetProofOfStake b =
     (if IsProofOfStake b then (prevout (hd (vin (vtx b ! 1))), tx_nTime (vtx b ! 1))
      else (\<lparr> hash = 0, n = 0xFFFFFFFF \<rparr>, 0))"

text \<open>Modelled from the spec: the constructor \<open>CBlockIndex(nFile, nBlockPos, block)\<close>
  (main.h is missing). The node has no predecessor, height 0 and trust 0; it copies
  \<open>nBits\<close> and \<open>nTime\<close> of the header and holds "isPoS, prevoutStake, nStakeTime" of
  the block.\<close>

definition new_CBlockIndex :: "uint32 \<Rightarrow> uint32 \<Rightarrow> CBlock \<Rightarrow> CBlockIndex" where
  "new_CBlockIndex nFileIn nBlockPosIn b =
     CBlockIndex None 0 nFileIn nBlockPosIn (nBits b) (nTime b) (IsProofOfStake b)
       (fst (GetProofOfStake b)) (snd (GetProofOfStake b)) 0 False 0 0 0 0 0"

text \<open>The part of the global state that the ingress of blocks reads and writes.
  The multimap \<open>mapOrphanBlocksByPrev\<close> is a list of pairs.\<close>

record chainstate =
  mapBlockIndex :: "uint256 \<rightharpoonup> CBlockIndex"
  setStakeSeen :: "(COutPoint \<times> uint32) set"
  nBestChainTrust :: uint256
  hashBestChain :: uint256
  mapOrphanBlocks :: "uint256 \<rightharpoonup> CBlock"
  mapOrphanBlocksByPrev :: "(uint256 \<times> CBlock) list"
  setStakeSeenOrphan :: "(COutPoint \<times> uint32) set"

text \<open>
  The outcomes of the calls that \<open>AddToBlockIndex\<close> makes into the kernel
  (\<open>SetStakeEntropyBit\<close>, \<open>ComputeNextStakeModifier\<close>, \<open>GetStakeModifierChecksum\<close>),
  the database (\<open>TxnBegin\<close>, \<open>TxnCommit\<close>) and \<open>SetBestChain\<close>, which connects the
  block or reorganizes and leaves the entries of \<open>mapBlockIndex\<close>, their trust and
  \<open>setStakeSeen\<close> as they are. Of a successful \<open>SetBestChain\<close> the model keeps that the
  new node becomes the best one; the source can stop at an earlier node of the new
  chain when a postponed block fails to connect.
\<close>

record index_outcomes =
  SetStakeEntropyBit_ok :: bool
  ComputeNextStakeModifier :: "(64 word \<times> bool) option"
  GetStakeModifierChecksum :: uint32
  TxnBegin_ok :: bool
  TxnCommit_ok :: bool
  SetBestChain_ok :: bool

text \<open>
  The node is built field by field in the source; here the fields are computed in the
  same order and the node is assembled when it enters \<open>mapBlockIndex\<close>. The function
  returns its verdict and the state it leaves: a failure after the insertion leaves the
  node in the index.
\<close>

definition AddToBlockIndex ::
  "env \<Rightarrow> index_outcomes \<Rightarrow> CBlock \<Rightarrow> uint32 \<Rightarrow> uint32 \<Rightarrow> uint256 \<Rightarrow> chainstate
   \<Rightarrow> verdict \<times> chainstate" where
  "AddToBlockIndex e oc b nFileIn nBlockPosIn hashProofIn s =
     (let hash = GetHash_block e b in
      if mapBlockIndex s hash \<noteq> None then (error ''already exists'', s)
      else
        (let pindexNew = new_CBlockIndex nFileIn nBlockPosIn b;
             miPrev = mapBlockIndex s (hashPrevBlock b);
             height = (case miPrev of None \<Rightarrow> nHeight pindexNew | Some p \<Rightarrow> nHeight p + 1);
             trust = (case miPrev of None \<Rightarrow> 0 | Some p \<Rightarrow> nChainTrust p)
                     + GetBlockTrust e pindexNew
         in if \<not> SetStakeEntropyBit_ok oc then (error ''SetStakeEntropyBit failed'', s)
            else
              (case ComputeNextStakeModifier oc of
                 None \<Rightarrow> (error ''ComputeNextStakeModifier failed'', s)
               | Some (modifier, generated) \<Rightarrow>
                   (let node = CBlockIndex miPrev height (nFile pindexNew) (nBlockPos pindexNew)
                          (idx_nBits pindexNew) (idx_nTime pindexNew) (isPoS pindexNew)
                          (prevoutStake pindexNew) (nStakeTime pindexNew) modifier generated
                          (GetStakeModifierChecksum oc) hashProofIn trust
                          (nMint pindexNew) (nMoneySupply pindexNew);
                        s1 = s\<lparr> mapBlockIndex := (mapBlockIndex s)(hash \<mapsto> node),
                                setStakeSeen :=
                                  (if isPoS node
                                   then insert (prevoutStake node, nStakeTime node) (setStakeSeen s)
                                   else setStakeSeen s) \<rparr>
                    in if \<not> TxnBegin_ok oc then (error [], s1)
                       else if \<not> TxnCommit_ok oc then (error [], s1)
                       else if nBestChainTrust s1 < nChainTrust node then
                         (if \<not> SetBestChain_ok oc then (error [], s1)
                          else (Inr (), s1\<lparr> nBestChainTrust := nChainTrust node,
                                              hashBestChain := hash \<rparr>))
                       else (Inr (), s1)))))"

text \<open>The trust of a block as the specification words it: \<open>floor(2^256 / (target+1))\<close>.\<close>

definition block_trust_spec :: "int \<Rightarrow> int" where
  "block_trust_spec target = 2 ^ 256 div (target + 1)"

section \<open>CBlock::AcceptBlock and ProcessNewBlock\<close>

datatype CPMode = STRICT | ADVISORY | PERMISSIVE

text \<open>
  What the ingress of a block reads from the rest of the node: the download phase, the
  presence of a peer (\<open>pfrom\<close>), the checkpoint module, the kernel's proof-of-stake check,
  the rules implemented in other files, the disk, and the outcomes of the calls of
  \<open>AddToBlockIndex\<close> for a block.
\<close>

record ingress =
  IsInitialBlockDownload :: bool
  pfrom :: bool
  WantedByPendingSyncCheckpoint :: "uint256 \<Rightarrow> bool"
  GetLastSyncCheckpoint :: "CBlockIndex option"
  GetPastTimeLimit :: "CBlockIndex \<Rightarrow> int64"
  CheckCoinStakeTimestamp :: "int32 \<Rightarrow> int64 \<Rightarrow> int64 \<Rightarrow> bool"
  IsFinal :: "CTransaction \<Rightarrow> int32 \<Rightarrow> int64 \<Rightarrow> bool"
  CheckHardened :: "int32 \<Rightarrow> uint256 \<Rightarrow> bool"
  CheckProofOfStake :: "CBlockIndex \<Rightarrow> CTransaction \<Rightarrow> uint32 \<Rightarrow> bool \<times> uint256"
  GetPoWHash :: "CBlock \<Rightarrow> uint256"
  CheckSync :: "uint256 \<Rightarrow> CBlockIndex \<Rightarrow> bool"
  CheckpointsMode :: CPMode
  height_script :: "int32 \<Rightarrow> bytes"
  CheckDiskSpace :: "CBlock \<Rightarrow> bool"
  WriteToDisk :: "CBlock \<Rightarrow> (uint32 \<times> uint32) option"
  outcomes :: "CBlock \<Rightarrow> index_outcomes"

text \<open>
  \<open>AcceptBlock\<close> reads \<open>vtx[0].vin[0]\<close> and, for a proof-of-stake block, \<open>vtx[1]\<close>; its
  callers pass blocks that \<open>CheckBlock\<close> has accepted, which have them.
\<close>

definition AcceptBlock_rules ::
  "env \<Rightarrow> params \<Rightarrow> ingress \<Rightarrow> CBlock \<Rightarrow> CBlockIndex \<Rightarrow> failure + (uint32 \<times> uint32 \<times> uint256)" where
  "AcceptBlock_rules e c w b pindexPrev =
     (let hash = GetHash_block e b;
          height = nHeight pindexPrev + 1 in
      if IsProofOfWork b \<and> LAST_POW_BLOCK c <s height
      then Inl (Failure 100 ''reject proof-of-work at height'')
      else if nBits b \<noteq> GetNextTargetRequired e pindexPrev (IsProofOfStake b)
      then Inl (Failure 100 ''incorrect proof'')
      else if GetBlockTime b \<le>s GetPastTimeLimit w pindexPrev
              \<or> FutureDrift c (GetBlockTime b) <s idx_GetBlockTime pindexPrev
      then Inl (Failure 0 ''block timestamp is too early'')
      else if IsProofOfStake b
              \<and> \<not> CheckCoinStakeTimestamp w height (GetBlockTime b) (ucast (tx_nTime (vtx b ! 1)))
      then Inl (Failure 50 ''coinstake timestamp violation'')
      else if list_ex (\<lambda>tx. \<not> IsFinal w tx height (GetBlockTime b)) (vtx b)
      then Inl (Failure 10 ''contains a non-final transaction'')
      else if \<not> CheckHardened w height hash
      then Inl (Failure 100 ''rejected by hardened checkpoint lock-in'')
      else
      (let pos = (if IsProofOfStake b
                  then CheckProofOfStake w pindexPrev (vtx b ! 1) (nBits b) else (True, 0))
       in if IsProofOfStake b \<and> \<not> fst pos \<and> \<not> IsInitialBlockDownload w
          then Inl (Failure 0 [])
          else
          (let hashProofNew = (if IsProofOfWork b then GetPoWHash w b else snd pos);
               cpSatisfies = CheckSync w hash pindexPrev;
               expect = height_script w height;
               sig = scriptSig (hd (vin (hd (vtx b))))
           in if CheckpointsMode w = STRICT \<and> \<not> cpSatisfies
              then Inl (Failure 0 ''rejected by synchronized checkpoint'')
              else if length sig < length expect \<or> take (length expect) sig \<noteq> expect
              then Inl (Failure 100 ''block height mismatch in coinbase'')
              else if \<not> CheckDiskSpace w b then Inl (Failure 0 ''out of disk space'')
              else
              (case WriteToDisk w b of
                 None \<Rightarrow> Inl (Failure 0 ''WriteToDisk failed'')
               | Some (nFileNew, nBlockPosNew) \<Rightarrow>
                   Inr (nFileNew, nBlockPosNew, hashProofNew)))))"

text \<open>\<open>AcceptBlock\<close>: the tests of the version, of the duplicate and of the previous
  block, then the rules above (from the height rule to the writing of the block to
  disk, which yields the position), then \<open>AddToBlockIndex\<close>.\<close>

definition AcceptBlock ::
  "env \<Rightarrow> params \<Rightarrow> ingress \<Rightarrow> CBlock \<Rightarrow> chainstate \<Rightarrow> verdict \<times> chainstate" where
  "AcceptBlock e c w b s =
     (if fTestNet e \<and> CURRENT_VERSION c <s nVersion b
      then (DoS 10 ''reject unknown block version'', s)
      else if mapBlockIndex s (GetHash_block e b) \<noteq> None
      then (error ''block already in mapBlockIndex'', s)
      else
      (case mapBlockIndex s (hashPrevBlock b) of
         None \<Rightarrow> (DoS 10 ''prev block not found'', s)
       | Some pindexPrev \<Rightarrow>
         (case AcceptBlock_rules e c w b pindexPrev of
            Inl f \<Rightarrow> (Inl f, s)
          | Inr pos \<Rightarrow>
              (let r = AddToBlockIndex e (outcomes w b) b (fst pos) (fst (snd pos))
                         (snd (snd pos)) s
               in ((case fst r of
                      Inl f \<Rightarrow> error ''AddToBlockIndex failed''
                    | Inr u \<Rightarrow> Inr ()),
                   snd r)))))"

text \<open>\<open>ComputeMaxBits\<close>: the loop doubles the result once per day of \<open>nTime\<close>.\<close>

function ComputeMaxBits_loop :: "int \<Rightarrow> int \<Rightarrow> int64 \<Rightarrow> int" where
  "ComputeMaxBits_loop bnTargetLimit bnResult nTimeLeft =
     (if 0 <s nTimeLeft \<and> bnResult < bnTargetLimit
      then ComputeMaxBits_loop bnTargetLimit (bnResult * 2) (nTimeLeft - 24 * 60 * 60)
      else bnResult)"
  by pat_completeness auto
termination
proof (relation "measure (\<lambda>(l, r, t). nat (sint t))")
  show "wf (measure (\<lambda>(l :: int, r :: int, t :: int64). nat (sint t)))" by simp
next
  fix bnTargetLimit bnResult :: int and nTimeLeft :: int64
  assume a: "0 <s nTimeLeft \<and> bnResult < bnTargetLimit"
  then have pos: "0 < sint nTimeLeft" by (simp add: word_sless_alt)
  have up: "sint nTimeLeft < 2 ^ 63" using sint_lt [of nTimeLeft] by simp
  have "sint (nTimeLeft - 24 * 60 * 60) = signed_take_bit 63 (sint nTimeLeft - 86400)"
    by (simp add: sint_word_diff)
  also have "\<dots> = sint nTimeLeft - 86400"
    using pos up by (intro signed_take_bit_int_eq_self) simp_all
  finally have "sint (nTimeLeft - 24 * 60 * 60) < sint nTimeLeft" by simp
  with pos show "((bnTargetLimit, bnResult * 2, nTimeLeft - 24 * 60 * 60),
                  (bnTargetLimit, bnResult, nTimeLeft))
                 \<in> measure (\<lambda>(l, r, t). nat (sint t))"
    by simp
qed

declare ComputeMaxBits_loop.simps [simp del]

definition ComputeMaxBits :: "env \<Rightarrow> int \<Rightarrow> uint32 \<Rightarrow> int64 \<Rightarrow> uint32" where
  "ComputeMaxBits e bnTargetLimit nBase nTimeLeft =
     (let bnResult = ComputeMaxBits_loop bnTargetLimit (SetCompact e nBase * 2) nTimeLeft
      in GetCompact e (if bnResult > bnTargetLimit then bnTargetLimit else bnResult))"

definition ComputeMinStake :: "env \<Rightarrow> int32 \<Rightarrow> uint32 \<Rightarrow> int64 \<Rightarrow> uint32 \<Rightarrow> uint32" where
  "ComputeMinStake e height nBase nTimeLeft nBlockTime =
     ComputeMaxBits e (GetPOSLimit e height) nBase nTimeLeft"

definition ComputeMinWork :: "env \<Rightarrow> uint32 \<Rightarrow> int64 \<Rightarrow> uint32" where
  "ComputeMinWork e nBase nTimeLeft = ComputeMaxBits e (bnProofOfWorkLimit e) nBase nTimeLeft"

text \<open>The test "block with too little proof" against the last sync-checkpoint.\<close>

definition too_little_proof :: "env \<Rightarrow> CBlock \<Rightarrow> CBlockIndex \<Rightarrow> chainstate \<Rightarrow> bool" where
  "too_little_proof e b pcheckpoint s =
     (let deltaTime = GetBlockTime b - ucast (idx_nTime pcheckpoint);
          bnNewBlock = SetCompact e (nBits b);
          bnRequired =
            (if IsProofOfStake b then
               (let height = (case mapBlockIndex s (hashPrevBlock b) of
                                None \<Rightarrow> 0 | Some pindexPrev \<Rightarrow> nHeight pindexPrev + 1)
                in SetCompact e (ComputeMinStake e height
                     (idx_nBits (GetLastBlockIndex pcheckpoint True)) deltaTime (nTime b)))
             else SetCompact e (ComputeMinWork e
                     (idx_nBits (GetLastBlockIndex pcheckpoint False)) deltaTime))
      in bnNewBlock > bnRequired)"

text \<open>The inner loop of the work queue: every orphan that waits for \<open>hashPrev\<close> goes
  through \<open>AcceptBlock\<close> and leaves the orphan maps; the hashes of the accepted ones
  join the queue.\<close>

fun ProcessNewBlock_orphans ::
  "env \<Rightarrow> params \<Rightarrow> ingress \<Rightarrow> CBlock list \<Rightarrow> chainstate \<Rightarrow> uint256 list \<times> chainstate" where
  "ProcessNewBlock_orphans e c w [] s = ([], s)"
| "ProcessNewBlock_orphans e c w (pblockOrphan # rest) s =
     (let r = AcceptBlock e c w pblockOrphan s;
          s1 = (snd r)\<lparr> mapOrphanBlocks :=
                   (mapOrphanBlocks (snd r))(GetHash_block e pblockOrphan := None),
                 setStakeSeenOrphan :=
                   setStakeSeenOrphan (snd r) - {GetProofOfStake pblockOrphan} \<rparr>;
          q = ProcessNewBlock_orphans e c w rest s1
      in ((if accepted (fst r) then [GetHash_block e pblockOrphan] else []) @ fst q, snd q))"


text \<open>
  The work queue. Each round removes the entries of \<open>hashPrev\<close> from
  \<open>mapOrphanBlocksByPrev\<close>, and \<open>AcceptBlock\<close> adds none; so either the multimap shrinks
  or, with no orphan waiting for \<open>hashPrev\<close>, the queue does.
\<close>

function ProcessNewBlock_queue ::
  "env \<Rightarrow> params \<Rightarrow> ingress \<Rightarrow> uint256 list \<Rightarrow> chainstate \<Rightarrow> chainstate" where
  "ProcessNewBlock_queue e c w [] s = s"
| "ProcessNewBlock_queue e c w (hashPrev # vWorkQueue) s =
     (let q = ProcessNewBlock_orphans e c w
                (map snd (filter (\<lambda>mi. fst mi = hashPrev) (mapOrphanBlocksByPrev s))) s;
          s1 = (snd q)\<lparr> mapOrphanBlocksByPrev :=
                   filter (\<lambda>mi. fst mi \<noteq> hashPrev) (mapOrphanBlocksByPrev (snd q)) \<rparr>
      in ProcessNewBlock_queue e c w (vWorkQueue @ fst q) s1)"
  by pat_completeness auto
termination
proof (relation "(\<lambda>(e, c, w, q, s). length (mapOrphanBlocksByPrev s))
                 <*mlex*> measure (\<lambda>(e, c, w, q, s). length q)")
  show "wf ((\<lambda>(e :: env, c :: params, w :: ingress, q :: uint256 list, s :: chainstate).
               length (mapOrphanBlocksByPrev s))
            <*mlex*> measure (\<lambda>(e, c, w, q, s). length q))"
    by (intro wf_mlex) simp
next
  fix e :: env and c :: params and w :: ingress and hashPrev :: uint256
    and vWorkQueue :: "uint256 list" and s :: chainstate
    and x :: "uint256 list \<times> chainstate" and xa :: chainstate
  assume x: "x = ProcessNewBlock_orphans e c w
                (map snd (filter (\<lambda>mi. fst mi = hashPrev) (mapOrphanBlocksByPrev s))) s"
    and xa: "xa = (snd x)\<lparr> mapOrphanBlocksByPrev :=
                   filter (\<lambda>mi. fst mi \<noteq> hashPrev) (mapOrphanBlocksByPrev (snd x)) \<rparr>"
  have add: "mapOrphanBlocksByPrev (snd (AddToBlockIndex e oc b nf np hp t))
             = mapOrphanBlocksByPrev t" for oc b nf np hp t
    by (simp add: AddToBlockIndex_def Let_def split: option.split prod.split)
  have acc: "mapOrphanBlocksByPrev (snd (AcceptBlock e c w b t)) = mapOrphanBlocksByPrev t"
    for b t
    by (simp add: AcceptBlock_def Let_def add split: option.split sum.split)
  have orph: "mapOrphanBlocksByPrev (snd (ProcessNewBlock_orphans e c w bs t))
              = mapOrphanBlocksByPrev t" for bs t
    by (induction bs arbitrary: t) (simp_all add: Let_def acc)
  let ?children = "filter (\<lambda>mi. fst mi = hashPrev) (mapOrphanBlocksByPrev s)"
  have same: "mapOrphanBlocksByPrev (snd x) = mapOrphanBlocksByPrev s"
    by (simp add: x orph)
  show "((e, c, w, vWorkQueue @ fst x, xa), (e, c, w, hashPrev # vWorkQueue, s))
        \<in> (\<lambda>(e, c, w, q, s). length (mapOrphanBlocksByPrev s))
           <*mlex*> measure (\<lambda>(e, c, w, q, s). length q)"
  proof (cases "?children = []")
    case True
    then have "fst x = []" by (simp add: x)
    moreover from True have "filter (\<lambda>mi. fst mi \<noteq> hashPrev) (mapOrphanBlocksByPrev s)
                             = mapOrphanBlocksByPrev s"
      by (auto simp: filter_empty_conv filter_id_conv)
    ultimately show ?thesis by (simp add: mlex_prod_def xa same)
  next
    case False
    then obtain mi where "mi \<in> set (mapOrphanBlocksByPrev s)" "fst mi = hashPrev"
      by (auto simp: filter_empty_conv)
    then have "length (filter (\<lambda>mi. fst mi \<noteq> hashPrev) (mapOrphanBlocksByPrev s))
               < length (mapOrphanBlocksByPrev s)"
      by (intro length_filter_less) auto
    then show ?thesis by (simp add: mlex_prod_def xa same)
  qed
qed

declare ProcessNewBlock_queue.simps [simp del]

definition ProcessNewBlock ::
  "env \<Rightarrow> params \<Rightarrow> ingress \<Rightarrow> CBlock \<Rightarrow> chainstate \<Rightarrow> verdict \<times> chainstate" where
  "ProcessNewBlock e c w pblock s =
     (let hash = GetHash_block e pblock in
      if mapBlockIndex s hash \<noteq> None then (error ''already have block'', s)
      else if mapOrphanBlocks s hash \<noteq> None then (error ''already have block (orphan)'', s)
      else if \<not> IsInitialBlockDownload w \<and> IsProofOfStake pblock
              \<and> GetProofOfStake pblock \<in> setStakeSeen s
              \<and> hash \<notin> fst ` set (mapOrphanBlocksByPrev s)
              \<and> \<not> WantedByPendingSyncCheckpoint w hash
      then (error ''duplicate proof-of-stake'', s)
      else if \<not> accepted (CheckBlock e c True True True pblock)
      then (error ''CheckBlock FAILED'', s)
      else if (case GetLastSyncCheckpoint w of
                 None \<Rightarrow> False
               | Some pcheckpoint \<Rightarrow>
                   hashPrevBlock pblock \<noteq> hashBestChain s
                   \<and> \<not> WantedByPendingSyncCheckpoint w hash
                   \<and> too_little_proof e pblock pcheckpoint s)
      then (Inl (Failure (if pfrom w then 100 else 0) ''block with too little proof''), s)
      else if mapBlockIndex s (hashPrevBlock pblock) = None then
        (if IsProofOfStake pblock
            \<and> GetProofOfStake pblock \<in> setStakeSeenOrphan s
            \<and> hash \<notin> fst ` set (mapOrphanBlocksByPrev s)
            \<and> \<not> WantedByPendingSyncCheckpoint w hash
         then (error ''duplicate proof-of-stake for orphan block'', s)
         else (Inr (),
               s\<lparr> setStakeSeenOrphan :=
                     (if IsProofOfStake pblock
                      then insert (GetProofOfStake pblock) (setStakeSeenOrphan s)
                      else setStakeSeenOrphan s),
                   mapOrphanBlocks := (mapOrphanBlocks s)(hash \<mapsto> pblock),
                   mapOrphanBlocksByPrev :=
                     mapOrphanBlocksByPrev s @ [(hashPrevBlock pblock, pblock)] \<rparr>))
      else
        (let r = AcceptBlock e c w pblock s
         in case fst r of
              Inl f \<Rightarrow> (Inl (Failure (if pfrom w then 5 else 0) ''AcceptBlock FAILED''), snd r)
            | Inr u \<Rightarrow> (Inr (), ProcessNewBlock_queue e c w [hash] (snd r))))"

section \<open>CBlock::ConnectBlock\<close>

definition ENFORCE_MN_PAYMENT_HEIGHT :: int32 where
  "ENFORCE_MN_PAYMENT_HEIGHT = 1100000"

definition ENFORCE_DEV_PAYMENT_HEIGHT :: int32 where
  "ENFORCE_DEV_PAYMENT_HEIGHT = 1200000"

definition GetProofOfWorkReward :: "env \<Rightarrow> params \<Rightarrow> int64 \<Rightarrow> int32 \<Rightarrow> int64" where
  "GetProofOfWorkReward e c nFees height =
     (if fTestNet e then (if height = 1 then 50000000 * COIN c else 5000 * COIN c)
      else
        (let nSubsidy =
           (if height <s 120 then 0 * COIN c
            else if height <s 950 then 750 * COIN c
            else if height <s 1400 then 550 * COIN c
            else if height <s 1900 then 425 * COIN c
            else if height <s 2400 then 325 * COIN c
            else if height <s 2850 then 251 * COIN c
            else if height <s 3500 then 190 * COIN c
            else if height <s 4000 then 105 * COIN c
            else 0 * COIN c)
         in nSubsidy + nFees))"

definition GetDeveloperPayment :: "params \<Rightarrow> int64 \<Rightarrow> int64" where
  "GetDeveloperPayment c nBlockValue = sdiv64 (nBlockValue * DEVELOPER_PAYMENT_V2 c) (COIN c)"

definition GetMasternodePayment :: "params \<Rightarrow> int32 \<Rightarrow> int64 \<Rightarrow> int64" where
  "GetMasternodePayment c height blockValue =
     sdiv64 ((blockValue - GetDeveloperPayment c blockValue) * 66) 100"

text \<open>
  What \<open>ConnectBlock\<close> reads from the rest of the node: the download phase, the outcome
  of \<open>CalculateBlockAmounts\<close> (the fees, the value in, the value out and the stake
  reward, computed over the transaction database), the sporks 2, 4 and 12, the coin age
  of the coinstake, \<open>GetValueOut\<close>, the masternode list and its payee for the height
  (at the first call and after the recalculation), the clock, the developer script and
  the outcomes of the writes to the database.
\<close>

record connect_view =
  cb_IsInitialBlockDownload :: bool
  CalculateBlockAmounts :: "(int64 \<times> int64 \<times> int64 \<times> int64) option"
  SPORK_2_MASTERNODE_WINNER_ENFORCEMENT :: bool
  SPORK_4_PAYMENT_ENFORCEMENT_DOS_VALUE :: int64
  SPORK_12_PAYMENT_ENFORCEMENT_THRESHOLD :: int64
  GetCoinAge :: "64 word option"
  GetValueOut :: "CTransaction \<Rightarrow> int64"
  isMasternodeListSynced :: bool
  GetTime :: int64
  GetBlockPayee :: "bytes option"
  GetBlockPayee_recalculated :: "bytes option"
  GetDeveloperScript :: bytes
  WriteBlockIndex_ok :: bool
  UpdateTxIndex_ok :: bool
  WriteBlockIndex_prev_ok :: bool

text \<open>\<open>pindex->nMint\<close> and \<open>pindex->nMoneySupply\<close> are written in place.\<close>

definition with_money :: "CBlockIndex \<Rightarrow> int64 \<Rightarrow> int64 \<Rightarrow> CBlockIndex" where
  "with_money pindex mint supply =
     CBlockIndex (pprev pindex) (nHeight pindex) (nFile pindex) (nBlockPos pindex)
       (idx_nBits pindex) (idx_nTime pindex) (isPoS pindex) (prevoutStake pindex)
       (nStakeTime pindex) (nStakeModifier pindex) (fGeneratedStakeModifier pindex)
       (nStakeModifierChecksum pindex) (hashProof pindex) (nChainTrust pindex) mint supply"

text \<open>
  The check of the payee, once the masternode list is synced and the block is younger
  than \<open>MNPAYEE_MAX_BLOCK_AGE\<close>. \<open>blockPayee\<close> is the script of the last output with the
  required amount (empty if there is none).
\<close>

definition ConnectBlock_payee ::
  "params \<Rightarrow> connect_view \<Rightarrow> CBlockIndex \<Rightarrow> int32 \<Rightarrow> bool \<Rightarrow> bytes \<Rightarrow> verdict" where
  "ConnectBlock_payee c v pindex postponedBlocks fMnPaymentMade blockPayee =
     (let nDoS_PMTs = sint (ucast (SPORK_4_PAYMENT_ENFORCEMENT_DOS_VALUE v) :: int32);
          fEnforceMnWinner = SPORK_2_MASTERNODE_WINNER_ENFORCEMENT v;
          below = (scast postponedBlocks <s SPORK_12_PAYMENT_ENFORCEMENT_THRESHOLD v)
      in if isMasternodeListSynced v
            \<and> GetTime v - idx_GetBlockTime pindex <s MNPAYEE_MAX_BLOCK_AGE c
         then
           (let fPaidCorrectMn =
                  (case GetBlockPayee v of
                     None \<Rightarrow> False
                   | Some expectedPayee \<Rightarrow>
                       if blockPayee = expectedPayee then True
                       else blockPayee = (case GetBlockPayee_recalculated v of
                                            None \<Rightarrow> expectedPayee | Some p \<Rightarrow> p))
            in if GetBlockPayee v \<noteq> None \<and> \<not> fPaidCorrectMn \<and> fEnforceMnWinner \<and> below
               then DoS nDoS_PMTs ''Stake does not pay correct masternode''
               else if \<not> (fMnPaymentMade \<and> fPaidCorrectMn) \<and> below \<and> fEnforceMnWinner
               then DoS nDoS_PMTs ''Masternode payment missing or is not valid''
               else Inr ())
         else Inr ())"

text \<open>The checks of the block rewards of a proof-of-stake block outside the initial
  block download: the masternode amount, the payee, the developer payment.\<close>

definition ConnectBlock_payments ::
  "params \<Rightarrow> connect_view \<Rightarrow> CBlock \<Rightarrow> CBlockIndex \<Rightarrow> int32 \<Rightarrow> int64 \<Rightarrow> verdict" where
  "ConnectBlock_payments c v b pindex postponedBlocks nCalculatedStakeReward =
     (let nRequiredMnPmt = GetMasternodePayment c (nHeight pindex) nCalculatedStakeReward;
          nRequiredDevPmt = GetDeveloperPayment c nCalculatedStakeReward;
          nDoS_PMTs = sint (ucast (SPORK_4_PAYMENT_ENFORCEMENT_DOS_VALUE v) :: int32);
          paying = filter (\<lambda>out. nValue out = nRequiredMnPmt) (vout (vtx b ! 1));
          fMnPaymentMade = (paying \<noteq> []);
          blockPayee = (if paying = [] then [] else scriptPubKey (last paying))
      in if \<not> fMnPaymentMade \<and> ENFORCE_MN_PAYMENT_HEIGHT \<le>s nHeight pindex
         then DoS nDoS_PMTs ''Stake does not pay masternode expected amount''
         else
           (case ConnectBlock_payee c v pindex postponedBlocks fMnPaymentMade blockPayee of
              Inl f \<Rightarrow> Inl f
            | Inr u \<Rightarrow>
                if \<not> list_ex (\<lambda>out. nValue out = nRequiredDevPmt
                                      \<and> scriptPubKey out = GetDeveloperScript v) (vout (vtx b ! 1))
                   \<and> ENFORCE_DEV_PAYMENT_HEIGHT \<le>s nHeight pindex
                then DoS nDoS_PMTs ''Block fails to pay dev payment''
                else Inr ()))"

text \<open>The check of the reward: of the coinbase for a proof-of-work block, of the
  coinstake, and then of the payments, for a proof-of-stake block.\<close>

definition ConnectBlock_rewards ::
  "env \<Rightarrow> params \<Rightarrow> connect_view \<Rightarrow> CBlock \<Rightarrow> CBlockIndex \<Rightarrow> int32 \<Rightarrow> int64 \<Rightarrow> int64 \<Rightarrow> verdict" where
  "ConnectBlock_rewards e c v b pindex postponedBlocks nFees nStakeReward =
     (if IsProofOfWork b then
        (if 17901 <s nHeight pindex
            \<and> GetProofOfWorkReward e c nFees (nHeight pindex) <s GetValueOut v (vtx b ! 0)
         then DoS 50 ''coinbase reward exceeded''
         else Inr ())
      else if IsProofOfStake b then
        (case GetCoinAge v of
           None \<Rightarrow> error ''unable to get coin age for coinstake''
         | Some nCoinAge \<Rightarrow>
             (let nCalculatedStakeReward =
                    GetProofOfStakeReward c nCoinAge nFees (nHeight pindex)
              in if 17901 <s nHeight pindex \<and> nCalculatedStakeReward <s nStakeReward
                 then DoS 100 ''coinstake pays too much''
                 else if \<not> cb_IsInitialBlockDownload v
                 then ConnectBlock_payments c v b pindex postponedBlocks nCalculatedStakeReward
                 else Inr ()))
      else Inr ())"

text \<open>
  \<open>ConnectBlock\<close> returns its verdict and the node with the fields it has written. The
  writes to the database after the checks are outcomes of the view.
\<close>

definition ConnectBlock ::
  "env \<Rightarrow> params \<Rightarrow> connect_view \<Rightarrow> CBlock \<Rightarrow> CBlockIndex \<Rightarrow> bool \<Rightarrow> bool \<Rightarrow> int32
   \<Rightarrow> verdict \<times> CBlockIndex" where
  "ConnectBlock e c v b pindex fJustCheck reorganize postponedBlocks =
     (if \<not> accepted (CheckBlock e c (\<not> fJustCheck) (\<not> fJustCheck) False b)
      then (error [], pindex)
      else
      (case CalculateBlockAmounts v of
         None \<Rightarrow> (error [], pindex)
       | Some (nFees, nValueIn, nValueOut, nStakeReward) \<Rightarrow>
         (let mint = nValueOut - nValueIn + nFees;
              supply0 = (case pprev pindex of None \<Rightarrow> 0 | Some p \<Rightarrow> nMoneySupply p)
          in if supply0 = 0 \<and> \<not> cb_IsInitialBlockDownload v
             then (error ''Money supply was calculated to zero'', with_money pindex mint supply0)
             else
             (let pindex1 = with_money pindex mint (supply0 + nValueOut - nValueIn)
              in case ConnectBlock_rewards e c v b pindex1 postponedBlocks nFees nStakeReward of
                   Inl f \<Rightarrow> (Inl f, pindex1)
                 | Inr u \<Rightarrow>
                     if \<not> WriteBlockIndex_ok v
                     then (error ''WriteBlockIndex for pindex failed'', pindex1)
                     else if fJustCheck then (Inr (), pindex1)
                     else if \<not> UpdateTxIndex_ok v
                     then (error ''UpdateTxIndex failed'', pindex1)
                     else if pprev pindex1 \<noteq> None \<and> \<not> WriteBlockIndex_prev_ok v
                     then (error ''WriteBlockIndex failed'', pindex1)
                     else (Inr (), pindex1)))))"

text \<open>The conditions of the claim on the masternode payment: the block reaches the
  check of the block rewards (it is a proof-of-stake block outside the initial block
  download that has passed the earlier checks), and no output of the coinstake has the
  required amount. \<open>mn_check_reached\<close> yields the calculated stake reward.\<close>

definition mn_check_reached ::
  "env \<Rightarrow> params \<Rightarrow> connect_view \<Rightarrow> CBlock \<Rightarrow> CBlockIndex \<Rightarrow> bool \<Rightarrow> int64 option" where
  "mn_check_reached e c v b pindex fJustCheck =
     (if accepted (CheckBlock e c (\<not> fJustCheck) (\<not> fJustCheck) False b)
         \<and> IsProofOfStake b \<and> \<not> cb_IsInitialBlockDownload v
      then
        (case (CalculateBlockAmounts v, GetCoinAge v) of
           (Some (nFees, nValueIn, nValueOut, nStakeReward), Some nCoinAge) \<Rightarrow>
             (let reward = GetProofOfStakeReward c nCoinAge nFees (nHeight pindex)
              in if (case pprev pindex of None \<Rightarrow> 0 | Some p \<Rightarrow> nMoneySupply p) \<noteq> 0
                    \<and> \<not> (17901 <s nHeight pindex \<and> reward <s nStakeReward)
                 then Some reward else None)
         | _ \<Rightarrow> None)
      else None)"

definition mn_payment_absent :: "params \<Rightarrow> CBlock \<Rightarrow> CBlockIndex \<Rightarrow> int64 \<Rightarrow> bool" where
  "mn_payment_absent c b pindex reward =
     (\<forall>out \<in> set (vout (vtx b ! 1)).
        nValue out \<noteq> GetMasternodePayment c (nHeight pindex) reward)"

definition payee_enforced :: "params \<Rightarrow> connect_view \<Rightarrow> CBlockIndex \<Rightarrow> int32 \<Rightarrow> bool" where
  "payee_enforced c v pindex postponedBlocks =
     (isMasternodeListSynced v
      \<and> GetTime v - idx_GetBlockTime pindex <s MNPAYEE_MAX_BLOCK_AGE c
      \<and> SPORK_2_MASTERNODE_WINNER_ENFORCEMENT v
      \<and> scast postponedBlocks <s SPORK_12_PAYMENT_ENFORCEMENT_THRESHOLD v)"


definition persisted :: "connect_view \<Rightarrow> CBlockIndex \<Rightarrow> bool \<Rightarrow> bool" where
  "persisted v pindex fJustCheck =
     (WriteBlockIndex_ok v
      \<and> (fJustCheck \<or> (UpdateTxIndex_ok v \<and> (pprev pindex = None \<or> WriteBlockIndex_prev_ok v))))"

section \<open>Reorganize\<close>

text \<open>
  \<open>Reorganize\<close> walks the block index by the addresses of its nodes and compares
  nodes by address. Here the index is a store: the fields that the function reads
  (\<open>pprev\<close>, \<open>nHeight\<close>) and writes (\<open>pnext\<close>), by the address of the node.
\<close>

type_synonym ptr = nat

record block_index =
  ix_pprev :: "ptr \<Rightarrow> ptr option"
  ix_nHeight :: "ptr \<Rightarrow> int32"
  ix_pnext :: "ptr \<Rightarrow> ptr option"

text \<open>
  What \<open>Reorganize\<close> reads from the rest of the node: the blocks on disk and the
  outcomes of \<open>DisconnectBlock\<close>, \<open>ConnectBlock\<close> (called with \<open>fJustCheck = false\<close>,
  \<open>reorganize = true\<close> and \<open>postponedBlocks\<close>), \<open>WriteHashBestChain\<close> and \<open>TxnCommit\<close>.
\<close>

record reorg_view =
  rv_ReadFromDisk :: "ptr \<Rightarrow> CBlock option"
  rv_DisconnectBlock :: "CBlock \<Rightarrow> ptr \<Rightarrow> bool"
  rv_ConnectBlock :: "CBlock \<Rightarrow> ptr \<Rightarrow> int32 \<Rightarrow> bool"
  rv_WriteHashBestChain :: bool
  rv_TxnCommit :: bool

text \<open>The calls into the memory pool, whose code is in another module.\<close>

datatype mempool_call =
  AcceptToMemoryPool CTransaction
  | mempool_remove CTransaction
  | mempool_removeConflicts CTransaction

text \<open>The inner loop of the search for the fork: \<open>plonger\<close> goes back while it is
  higher than \<open>pfork\<close>; the result is \<open>None\<close> if it runs into a NULL \<open>pprev\<close>. The loops
  over \<open>pprev\<close> need not end in a store with a cycle: they are partial functions.\<close>

partial_function (option) climb :: "block_index \<Rightarrow> ptr \<Rightarrow> ptr \<Rightarrow> ptr option option" where
  "climb ix pfork plonger =
     (if ix_nHeight ix pfork <s ix_nHeight ix plonger
      then (case ix_pprev ix plonger of
              None \<Rightarrow> Some None
            | Some p \<Rightarrow> climb ix pfork p)
      else Some (Some plonger))"

partial_function (option) find_fork :: "block_index \<Rightarrow> ptr \<Rightarrow> ptr \<Rightarrow> (failure + ptr) option" where
  "find_fork ix pfork plonger =
     (if pfork = plonger then Some (Inr pfork)
      else
        (case climb ix pfork plonger of
           None \<Rightarrow> None
         | Some None \<Rightarrow> Some (Inl (Failure 0 ''plonger->pprev is null''))
         | Some (Some pl) \<Rightarrow>
             if pfork = pl then Some (Inr pfork)
             else
               (case ix_pprev ix pfork of
                  None \<Rightarrow> Some (Inl (Failure 0 ''pfork->pprev is null''))
                | Some pf \<Rightarrow> find_fork ix pf pl)))"

text \<open>The nodes from \<open>pindex\<close> back to \<open>pfork\<close>, without \<open>pfork\<close>: the loops that fill
  \<open>vDisconnect\<close> and \<open>vConnect\<close>. They read \<open>pindex->pprev\<close> without a test; a NULL
  before \<open>pfork\<close> gives no result.\<close>

partial_function (option) walk_to :: "block_index \<Rightarrow> ptr \<Rightarrow> ptr \<Rightarrow> ptr list option" where
  "walk_to ix pfork pindex =
     (if pindex = pfork then Some []
      else
        (case ix_pprev ix pindex of
           None \<Rightarrow> None
         | Some p \<Rightarrow> Option.bind (walk_to ix pfork p) (\<lambda>r. Some (pindex # r))))"

text \<open>"Disconnect shorter branch": the loop over \<open>vDisconnect\<close>, which yields \<open>vResurrect\<close>.\<close>

fun disconnect_all :: "reorg_view \<Rightarrow> ptr list \<Rightarrow> failure + CTransaction list" where
  "disconnect_all v [] = Inr []"
| "disconnect_all v (pindex # rest) =
     (case rv_ReadFromDisk v pindex of
        None \<Rightarrow> Inl (Failure 0 ''ReadFromDisk for disconnect failed'')
      | Some block \<Rightarrow>
          if \<not> rv_DisconnectBlock v block pindex then Inl (Failure 0 ''DisconnectBlock failed'')
          else
            (case disconnect_all v rest of
               Inl f \<Rightarrow> Inl f
             | Inr vResurrect \<Rightarrow>
                 Inr (filter (\<lambda>tx. \<not> (IsCoinBase tx \<or> IsCoinStake tx)) (vtx block)
                      @ vResurrect)))"

text \<open>"Connect longer branch": the loop over \<open>vConnect\<close>, which yields \<open>vDelete\<close>.\<close>

fun connect_all :: "reorg_view \<Rightarrow> int32 \<Rightarrow> ptr list \<Rightarrow> failure + CTransaction list" where
  "connect_all v postponedBlocks [] = Inr []"
| "connect_all v postponedBlocks (pindex # rest) =
     (case rv_ReadFromDisk v pindex of
        None \<Rightarrow> Inl (Failure 0 ''ReadFromDisk for connect failed'')
      | Some block \<Rightarrow>
          if \<not> rv_ConnectBlock v block pindex postponedBlocks
          then Inl (Failure 0 ''ConnectBlock failed'')
          else
            (case connect_all v postponedBlocks rest of
               Inl f \<Rightarrow> Inl f
             | Inr vDelete \<Rightarrow> Inr (vtx block @ vDelete)))"

text \<open>The two loops that set \<open>pprev->pnext\<close>, to NULL for the disconnected nodes and to
  the node for the connected ones.\<close>

definition unlink_all :: "ptr list \<Rightarrow> block_index \<Rightarrow> block_index" where
  "unlink_all vDisconnect ix =
     fold (\<lambda>pindex ix. case ix_pprev ix pindex of
                         None \<Rightarrow> ix
                       | Some p \<Rightarrow> ix\<lparr> ix_pnext := (ix_pnext ix)(p := None) \<rparr>)
          vDisconnect ix"

definition link_all :: "ptr list \<Rightarrow> block_index \<Rightarrow> block_index" where
  "link_all vConnect ix =
     fold (\<lambda>pindex ix. case ix_pprev ix pindex of
                         None \<Rightarrow> ix
                       | Some p \<Rightarrow> ix\<lparr> ix_pnext := (ix_pnext ix)(p := Some pindex) \<rparr>)
          vConnect ix"

text \<open>
  \<open>Reorganize\<close> returns its verdict, the index and the calls that it has made into the
  memory pool, in their order; it has no value if the search for the fork does not end.
  A failure leaves the index as it is and comes before any call into the memory pool.
\<close>

definition Reorganize ::
  "reorg_view \<Rightarrow> block_index \<Rightarrow> ptr \<Rightarrow> ptr \<Rightarrow> int32
   \<Rightarrow> (verdict \<times> block_index \<times> mempool_call list) option" where
  "Reorganize v ix pindexBest pindexNew postponedBlocks =
     (case find_fork ix pindexBest pindexNew of
        None \<Rightarrow> None
      | Some (Inl f) \<Rightarrow> Some (Inl f, ix, [])
      | Some (Inr pfork) \<Rightarrow>
          (case walk_to ix pfork pindexBest of
             None \<Rightarrow> None
           | Some vDisconnect \<Rightarrow>
               (case walk_to ix pfork pindexNew of
                  None \<Rightarrow> None
                | Some vConnect0 \<Rightarrow>
                    (let vConnect = rev vConnect0 in
                     case disconnect_all v vDisconnect of
                       Inl f \<Rightarrow> Some (Inl f, ix, [])
                     | Inr vResurrect \<Rightarrow>
                         (case connect_all v postponedBlocks vConnect of
                            Inl f \<Rightarrow> Some (Inl f, ix, [])
                          | Inr vDelete \<Rightarrow>
                              if \<not> rv_WriteHashBestChain v
                              then Some (error ''WriteHashBestChain failed'', ix, [])
                              else if \<not> rv_TxnCommit v
                              then Some (error ''TxnCommit failed'', ix, [])
                              else Some (Inr (),
                                         link_all vConnect (unlink_all vDisconnect ix),
                                         map AcceptToMemoryPool vResurrect
                                         @ concat (map (\<lambda>tx. [mempool_remove tx,
                                                              mempool_removeConflicts tx])
                                                       vDelete)))))))"

text \<open>The steps of \<open>pprev\<close> in the store, and the nodes from \<open>pindex\<close> back to
  \<open>pfork\<close> (without \<open>pfork\<close>) as a property of a list of nodes.\<close>

definition pprev_rel :: "block_index \<Rightarrow> (ptr \<times> ptr) set" where
  "pprev_rel ix = {(pindex, p). ix_pprev ix pindex = Some p}"

fun is_path :: "block_index \<Rightarrow> ptr \<Rightarrow> ptr list \<Rightarrow> ptr \<Rightarrow> bool" where
  "is_path ix pindex [] pfork = (pindex = pfork)"
| "is_path ix pindex (x # xs) pfork =
     (x = pindex \<and> pindex \<noteq> pfork
      \<and> (case ix_pprev ix pindex of None \<Rightarrow> False | Some p \<Rightarrow> is_path ix p xs pfork))"

text \<open>An environment with simple collaborators (every non-empty script pays to the
  key that it spells, and a signature is valid if it repeats the key) and the customary
  constants of the coin (one coin is \<open>10^8\<close> units), to evaluate the functions on
  concrete inputs.\<close>

definition example_env :: env where
  "example_env = \<lparr> fTestNet = False,
     GetSerializeSize_tx = (\<lambda>_. 100), GetSerializeSize_block = (\<lambda>_. 1000),
     GetHash_tx = (\<lambda>tx. push_bit 32 (of_nat (length (vout tx))) + ucast (tx_nTime tx)),
     GetHash_block = (\<lambda>b. ucast (nNonce b)),
     GetSigOpCount = (\<lambda>_. 0),
     Solver = (\<lambda>script. if script = [] then None else Some (TX_PUBKEY, [script])),
     SetPubKey = (\<lambda>key. key \<noteq> []),
     Verify = (\<lambda>key _ sig. sig = key), BuildMerkleTree = (\<lambda>b. hashMerkleRoot b),
     GetAdjustedTime = 1600000000,
     SetCompact = compact_decode, GetCompact = compact_encode,
     GetPOSLimit = (\<lambda>_. 2 ^ 236 - 1) \<rparr>"

definition example_params :: params where
  "example_params = \<lparr> COIN = 100000000, CENT = 1000000, MAX_MONEY = 6800000000000000,
     MIN_TX_FEE = 10000, MIN_RELAY_TX_FEE = 10000, MAX_BLOCK_SIZE = 1000000,
     MAX_BLOCK_SIZE_GEN = 500000, MAX_BLOCK_SIGOPS = 20000, FUTURE_DRIFT = 600,
     DEVELOPER_PAYMENT_V2 = 10000000, CURRENT_VERSION = 7, LAST_POW_BLOCK = 4000,
     MNPAYEE_MAX_BLOCK_AGE = 3600 \<rparr>"

definition null_outpoint :: COutPoint where
  "null_outpoint = \<lparr> hash = 0, n = 0xFFFFFFFF \<rparr>"

definition example_coinbase :: CTransaction where
  "example_coinbase = \<lparr> tx_nVersion = 1, tx_nTime = 1500000000,
     vin = [\<lparr> prevout = null_outpoint, scriptSig = [1, 2], nSequence = 0xFFFFFFFF \<rparr>],
     vout = [\<lparr> nValue = 5000000000, scriptPubKey = [0x51] \<rparr>], nLockTime = 0 \<rparr>"

definition example_pow_block :: CBlock where
  "example_pow_block = \<lparr> nVersion = 1, hashPrevBlock = 0, hashMerkleRoot = 0,
     nTime = 1500000000, nBits = 0x1e0fffff, nNonce = 7,
     vtx = [example_coinbase], vchBlockSig = [] \<rparr>"

definition example_tx :: CTransaction where
  "example_tx = \<lparr> tx_nVersion = 1, tx_nTime = 1499999000,
     vin = [\<lparr> prevout = \<lparr> hash = 5, n = 0 \<rparr>, scriptSig = [1], nSequence = 0xFFFFFFFF \<rparr>,
            \<lparr> prevout = \<lparr> hash = 5, n = 1 \<rparr>, scriptSig = [2], nSequence = 0xFFFFFFFF \<rparr>],
     vout = [\<lparr> nValue = 250000000, scriptPubKey = [0x51] \<rparr>,
             \<lparr> nValue = 1000000, scriptPubKey = [0x52] \<rparr>], nLockTime = 0 \<rparr>"

definition example_block :: CBlock where
  "example_block = example_pow_block\<lparr>vtx := [example_coinbase, example_tx]\<rparr>"

definition late_tx_block :: CBlock where
  "late_tx_block = example_pow_block\<lparr>vtx := [example_coinbase, example_tx\<lparr>tx_nTime := 1500000001\<rparr>]\<rparr>"

definition dust_tx :: CTransaction where
  "dust_tx = example_tx\<lparr>vout := [\<lparr> nValue = 500, scriptPubKey = [0x51] \<rparr>]\<rparr>"

text \<open>A chain of three proof-of-work nodes: a first node, a node at \<open>t1\<close> and the tip
  at \<open>t2\<close> with the compact target \<open>bits\<close>.\<close>

definition example_index :: "CBlockIndex option \<Rightarrow> int32 \<Rightarrow> uint32 \<Rightarrow> uint32 \<Rightarrow> CBlockIndex" where
  "example_index prev height bits time =
     CBlockIndex prev height 0 0 bits time False null_outpoint 0 0 False 0 0 0 0 0"

definition example_chain :: "uint32 \<Rightarrow> uint32 \<Rightarrow> uint32 \<Rightarrow> CBlockIndex" where
  "example_chain bits t1 t2 =
     example_index
       (Some (example_index (Some (example_index None 0 0x1e0fffff 1500000000)) 1 0x1e0fffff t1))
       2 bits t2"

definition ok_outcomes :: index_outcomes where
  "ok_outcomes = \<lparr> SetStakeEntropyBit_ok = True, ComputeNextStakeModifier = Some (0, False),
     GetStakeModifierChecksum = 0, TxnBegin_ok = True, TxnCommit_ok = True,
     SetBestChain_ok = True \<rparr>"

definition example_genesis :: CBlockIndex where
  "example_genesis =
     CBlockIndex None 0 0 0 0x1e0fffff 1400000000 False null_outpoint 0 0 False 0 0 1048577 0 0"

definition empty_state :: chainstate where
  "empty_state = \<lparr> mapBlockIndex = Map.empty, setStakeSeen = {}, nBestChainTrust = 0,
     hashBestChain = 0, mapOrphanBlocks = Map.empty, mapOrphanBlocksByPrev = [],
     setStakeSeenOrphan = {} \<rparr>"

definition example_state :: chainstate where
  "example_state = empty_state\<lparr> mapBlockIndex := [0 \<mapsto> example_genesis],
     nBestChainTrust := 1048577 \<rparr>"

definition example_node :: CBlockIndex where
  "example_node =
     CBlockIndex (Some example_genesis) 1 1 8 0x1e0fffff 1500000000 False null_outpoint 0 0
       False 0 0 2097154 0 0"

text \<open>A node's view in which every rule of the other modules passes.\<close>

definition example_world :: ingress where
  "example_world = \<lparr> IsInitialBlockDownload = False, pfrom = True,
     WantedByPendingSyncCheckpoint = (\<lambda>_. False), GetLastSyncCheckpoint = None,
     GetPastTimeLimit = (\<lambda>p. idx_GetBlockTime p),
     CheckCoinStakeTimestamp = (\<lambda>_ tb tt. tb = tt), IsFinal = (\<lambda>_ _ _. True),
     CheckHardened = (\<lambda>_ _. True), CheckProofOfStake = (\<lambda>_ _ _. (True, 77)),
     GetPoWHash = (\<lambda>b. ucast (nNonce b)), CheckSync = (\<lambda>_ _. True),
     CheckpointsMode = STRICT, height_script = (\<lambda>h. [1, ucast h]),
     CheckDiskSpace = (\<lambda>_. True), WriteToDisk = (\<lambda>b. Some (1, nNonce b)),
     outcomes = (\<lambda>_. ok_outcomes) \<rparr>"

definition stake_coinbase :: CTransaction where
  "stake_coinbase = \<lparr> tx_nVersion = 1, tx_nTime = 1500000000,
     vin = [\<lparr> prevout = null_outpoint, scriptSig = [1, 1], nSequence = 0xFFFFFFFF \<rparr>],
     vout = [\<lparr> nValue = 0, scriptPubKey = [] \<rparr>], nLockTime = 0 \<rparr>"

definition example_coinstake :: CTransaction where
  "example_coinstake = \<lparr> tx_nVersion = 1, tx_nTime = 1500000000,
     vin = [\<lparr> prevout = \<lparr> hash = 9, n = 0 \<rparr>, scriptSig = [5], nSequence = 0xFFFFFFFF \<rparr>],
     vout = [\<lparr> nValue = 0, scriptPubKey = [] \<rparr>,
             \<lparr> nValue = 4000000000, scriptPubKey = [0x21] \<rparr>], nLockTime = 0 \<rparr>"

text \<open>Proof-of-stake blocks on the first node that differ in the nonce (and so in
  the hash) and spend the same stake at the same time.\<close>

definition stake_block :: "uint32 \<Rightarrow> CBlock" where
  "stake_block nonce = \<lparr> nVersion = 7, hashPrevBlock = 0, hashMerkleRoot = 0,
     nTime = 1500000000, nBits = 0x1e0fffff, nNonce = nonce,
     vtx = [stake_coinbase, example_coinstake], vchBlockSig = [0x21] \<rparr>"

definition stake_node :: "uint32 \<Rightarrow> CBlockIndex" where
  "stake_node nonce =
     CBlockIndex (Some example_genesis) 1 1 nonce 0x1e0fffff 1500000000 True
       \<lparr> hash = 9, n = 0 \<rparr> 1500000000 0 False 0 77 2097154 0 0"

definition seen_state :: chainstate where
  "seen_state = example_state\<lparr> mapBlockIndex := [0 \<mapsto> example_genesis, 11 \<mapsto> stake_node 11],
     setStakeSeen := {(\<lparr> hash = 9, n = 0 \<rparr>, 1500000000)},
     nBestChainTrust := 2097154, hashBestChain := 11 \<rparr>"

text \<open>A view of the node with the masternode list synced and the sporks 2, 4 and 12
  set; the payee of the height is not known.\<close>

definition example_view :: connect_view where
  "example_view = \<lparr> cb_IsInitialBlockDownload = False,
     CalculateBlockAmounts = Some (0, 3999999900, 4000000000, 100),
     SPORK_2_MASTERNODE_WINNER_ENFORCEMENT = True,
     SPORK_4_PAYMENT_ENFORCEMENT_DOS_VALUE = 100,
     SPORK_12_PAYMENT_ENFORCEMENT_THRESHOLD = 10,
     GetCoinAge = Some 5, GetValueOut = (\<lambda>tx. sum_list (map nValue (vout tx))),
     isMasternodeListSynced = True, GetTime = 1500000100,
     GetBlockPayee = None, GetBlockPayee_recalculated = None,
     GetDeveloperScript = [0x76], WriteBlockIndex_ok = True, UpdateTxIndex_ok = True,
     WriteBlockIndex_prev_ok = True \<rparr>"

definition stake_index :: "int32 \<Rightarrow> CBlockIndex" where
  "stake_index height =
     CBlockIndex (Some (with_money example_genesis 0 100000000)) height 1 11 0x1e0fffff
       1500000000 True \<lparr> hash = 9, n = 0 \<rparr> 1500000000 0 False 0 77 2097154 0 0"

text \<open>
  An index with a fork: the old best chain \<open>10, 11, 12\<close> and the new chain
  \<open>10, 21, 22, 23\<close> (node 10 at height 100); the blocks of the nodes on disk; every call of the database
  succeeds.
\<close>

definition fork_index :: block_index where
  "fork_index = \<lparr>
     ix_pprev = (\<lambda>p. if p = 11 then Some 10 else if p = 12 then Some 11
                     else if p = 21 then Some 10 else if p = 22 then Some 21
                     else if p = 23 then Some 22 else None),
     ix_nHeight = (\<lambda>p. if p = 10 then 100 else if p = 11 then 101 else if p = 12 then 102
                       else if p = 21 then 101 else if p = 22 then 102 else 103),
     ix_pnext = (\<lambda>p. if p = 10 then Some 11 else if p = 11 then Some 12 else None) \<rparr>"

definition fork_blocks :: "ptr \<Rightarrow> CBlock option" where
  "fork_blocks p =
     (if p = 11 then Some (example_pow_block\<lparr>vtx := [example_coinbase, example_tx]\<rparr>)
      else if p = 12 then Some (example_pow_block\<lparr>vtx := [stake_coinbase, example_coinstake, dust_tx]\<rparr>)
      else if p = 21 then Some (example_pow_block\<lparr>vtx := [example_coinbase]\<rparr>)
      else if p = 22 then Some (example_pow_block\<lparr>vtx := [example_coinbase, example_tx]\<rparr>)
      else if p = 23 then Some (example_pow_block\<lparr>vtx := [stake_coinbase, example_coinstake]\<rparr>)
      else None)"

definition fork_view :: reorg_view where
  "fork_view = \<lparr> rv_ReadFromDisk = fork_blocks, rv_DisconnectBlock = (\<lambda>_ _. True),
     rv_ConnectBlock = (\<lambda>_ _ _. True), rv_WriteHashBestChain = True, rv_TxnCommit = True \<rparr>"

section \<open>Theorems\<close>

text \<open>
  C10. For a proof-of-work block, \<open>CheckBlockSignature\<close> returns true if and only if the
  block signature \<open>vchBlockSig\<close> is empty: a proof-of-work block with a non-empty
  signature fails the check.
\<close>

theorem CheckBlockSignature_pow:
  "IsProofOfWork b \<Longrightarrow> CheckBlockSignature e b = (vchBlockSig b = [])"
  by (simp add: CheckBlockSignature_def)

theorem CheckBlockSignature_pow_witness:
  "IsProofOfWork (example_pow_block\<lparr>vchBlockSig := [48, 1]\<rparr>)
   \<and> CheckBlockSignature example_env (example_pow_block\<lparr>vchBlockSig := [48, 1]\<rparr>)
       = (vchBlockSig (example_pow_block\<lparr>vchBlockSig := [48, 1]\<rparr>) = [])"
proof -
  have pow: "IsProofOfWork (example_pow_block\<lparr>vchBlockSig := [48, 1]\<rparr>)"
    by (simp add: IsProofOfWork_def IsProofOfStake_def example_pow_block_def)
  from pow CheckBlockSignature_pow [OF pow, of example_env] show ?thesis by simp
qed

subsection \<open>Signed 64-bit arithmetic without overflow\<close>

lemma sint_in_range64:
  "- (2 ^ 63) \<le> x \<Longrightarrow> x < 2 ^ 63 \<Longrightarrow> sint (word_of_int x :: int64) = x"
  by (simp add: sint_sbintrunc' signed_take_bit_int_eq_self)

lemma sint_mult64:
  "- (2 ^ 63) \<le> sint a * sint b \<Longrightarrow> sint a * sint b < 2 ^ 63 \<Longrightarrow>
   sint (a * b :: int64) = sint a * sint b"
  by (simp add: sint_word_mult signed_take_bit_int_eq_self)

lemma sint_add64:
  "- (2 ^ 63) \<le> sint a + sint b \<Longrightarrow> sint a + sint b < 2 ^ 63 \<Longrightarrow>
   sint (a + b :: int64) = sint a + sint b"
  by (simp add: sint_word_add signed_take_bit_int_eq_self)

lemma sint_diff64:
  "- (2 ^ 63) \<le> sint a - sint b \<Longrightarrow> sint a - sint b < 2 ^ 63 \<Longrightarrow>
   sint (a - b :: int64) = sint a - sint b"
  by (simp add: sint_word_diff signed_take_bit_int_eq_self)

lemma sdiv_nonneg: "0 \<le> a \<Longrightarrow> 0 \<le> b \<Longrightarrow> a sdiv b = a div (b::int)"
  by (cases "a = 0"; cases "b = 0") (simp_all add: signed_divide_int_def)

lemma sint_height_bound: "sint (h :: int32) < 2147483648"
  using sint_lt [of h] by simp

subsection \<open>GetProofOfStakeReward\<close>

text \<open>The subsidy after the halvings and the interpolation, on the signed values.\<close>

lemma pos_subsidy_sint:
  fixes S :: int64 and h :: int32
  assumes h: "13500 \<le> sint h"
    and S0: "0 \<le> sint S"
    and S1: "sint S * 999999 < 2 ^ 63"
  shows "sint (S - sdiv64 (S * word_of_int (sint h smod sint g_RewardHalvingPeriod))
                      (word_of_int (2 * sint g_RewardHalvingPeriod)))
         = sint S - sint S * (sint h mod 1000000) div 2000000"
    and "0 \<le> sint S - sint S * (sint h mod 1000000) div 2000000"
proof -
  let ?m = "sint h mod 1000000"
  have g: "sint g_RewardHalvingPeriod = 1000000"
    by (simp add: g_RewardHalvingPeriod_def)
  have m0: "0 \<le> ?m" and m1: "?m \<le> 999999" by simp_all
  have smod: "sint h smod sint g_RewardHalvingPeriod = ?m"
    using h by (simp add: g smod_mod_positive)
  have wm: "sint (word_of_int ?m :: int64) = ?m"
    using m0 m1 by (intro sint_in_range64) simp_all
  have prod_le: "sint S * ?m \<le> sint S * 999999"
    using S0 m1 by (intro mult_left_mono) simp_all
  have prod0: "0 \<le> sint S * ?m" using S0 m0 by simp
  have prod: "sint (S * word_of_int ?m) = sint S * ?m"
  proof -
    have "sint (S * (word_of_int ?m :: int64)) = sint S * sint (word_of_int ?m :: int64)"
      using prod0 prod_le S1 by (intro sint_mult64) (simp_all only: wm)
    then show ?thesis by (simp only: wm)
  qed
  have two: "sint (word_of_int (2 * sint g_RewardHalvingPeriod) :: int64) = 2000000"
    by (simp add: g)
  have q_le: "sint S * ?m div 2000000 \<le> sint S"
  proof -
    have "sint S * ?m div 2000000 \<le> sint S * 2000000 div 2000000"
      using S0 m1 by (intro zdiv_mono1 mult_left_mono) simp_all
    then show ?thesis by simp
  qed
  have q0: "0 \<le> sint S * ?m div 2000000"
    using prod0 by (simp add: pos_imp_zdiv_nonneg_iff)
  have Slt: "sint S < 2 ^ 63" using sint_lt [of S] by simp
  have q: "sint (sdiv64 (S * word_of_int ?m) (word_of_int (2 * sint g_RewardHalvingPeriod)))
           = sint S * ?m div 2000000"
    unfolding sdiv64_def prod two
    using prod0 q0 q_le Slt by (simp add: sdiv_nonneg sint_in_range64)
  show "0 \<le> sint S - sint S * ?m div 2000000" using q_le by simp
  then show "sint (S - sdiv64 (S * word_of_int (sint h smod sint g_RewardHalvingPeriod))
                      (word_of_int (2 * sint g_RewardHalvingPeriod)))
         = sint S - sint S * ?m div 2000000"
    unfolding smod using q q0 Slt by (subst sint_diff64) simp_all
qed

lemma drop_bit_le_self: "0 \<le> (k::int) \<Longrightarrow> drop_bit i k \<le> k"
  by (simp add: drop_bit_eq_div) (metis div_by_1 zdiv_mono2 one_le_power one_le_numeral zero_less_one)

text \<open>
  C5 (amended). For every height \<open>h \<ge> 13500\<close>, every coin age and all fees such that
  the sum does not exceed the largest \<open>int64_t\<close>, \<open>GetProofOfStakeReward\<close> returns
  \<open>s' + fees\<close>, where \<open>s = 0\<close> if \<open>h / 1000000 \<ge> 64\<close> and \<open>s = (40 * COIN) >> (h / 1000000)\<close>
  otherwise, and \<open>s' = s - s * (h mod 1000000) / (2 * 1000000)\<close>. The constant \<open>COIN\<close>
  is such that \<open>40 * COIN * 999999\<close> is an \<open>int64_t\<close>.
\<close>

theorem GetProofOfStakeReward_halving:
  fixes c :: params and nCoinAge nFees :: int64 and nHeight :: int32
  assumes h: "13500 \<le> sint nHeight"
    and coin0: "0 \<le> sint (COIN c)"
    and coin1: "40 * sint (COIN c) * 999999 < 2 ^ 63"
    and fits: "pos_reward_spec (sint (COIN c)) (sint nFees) (sint nHeight) < 2 ^ 63"
  shows "sint (GetProofOfStakeReward c nCoinAge nFees nHeight)
         = pos_reward_spec (sint (COIN c)) (sint nFees) (sint nHeight)"
proof -
  let ?C = "sint (COIN c)" and ?H = "sint nHeight"
  let ?k = "?H div 1000000"
  define S :: int64 where
    "S = (if 64 \<le> ?k then 0 else signed_drop_bit (nat ?k) (40 * COIN c))"
  define s :: int where "s = (if 64 \<le> ?k then 0 else drop_bit (nat ?k) (40 * ?C))"
  have g: "sint g_RewardHalvingPeriod = 1000000"
    by (simp add: g_RewardHalvingPeriod_def)
  have halv: "?H sdiv sint g_RewardHalvingPeriod = ?k"
    using h by (simp add: g sdiv_nonneg)
  have c40: "sint (40 * COIN c) = 40 * ?C"
    using coin0 coin1 by (subst sint_mult64) simp_all
  have SS: "sint S = s"
    by (simp add: S_def s_def sint_signed_drop_bit_eq c40)
  have s0: "0 \<le> s" using coin0 by (simp add: s_def)
  have s_le: "s \<le> 40 * ?C"
    using coin0 drop_bit_le_self [of "40 * ?C" "nat ?k"] by (simp add: s_def)
  have s1: "sint S * 999999 < 2 ^ 63"
  proof -
    have "s * 999999 \<le> 40 * ?C * 999999" using s_le by simp
    then show ?thesis using coin1 SS by simp
  qed
  have S0: "0 \<le> sint S" using s0 SS by simp
  note sub = pos_subsidy_sint [OF h S0 s1]
  have branch: "\<not> nHeight <s 5000" "\<not> nHeight <s 7000" "\<not> nHeight <s 7250"
    "\<not> nHeight <s 8500" "\<not> nHeight <s 10000" "\<not> nHeight <s 13500"
    using h by (simp_all add: word_sless_alt)
  have code: "GetProofOfStakeReward c nCoinAge nFees nHeight
      = (S - sdiv64 (S * word_of_int (?H smod sint g_RewardHalvingPeriod))
                    (word_of_int (2 * sint g_RewardHalvingPeriod))) + nFees"
    unfolding GetProofOfStakeReward_def Let_def S_def halv using branch by simp
  have spec: "pos_reward_spec ?C (sint nFees) ?H
      = (s - s * (?H mod 1000000) div 2000000) + sint nFees"
    by (simp add: pos_reward_spec_def s_def Let_def)
  have lo: "- (2 ^ 63) \<le> sint nFees" using sint_ge [of nFees] by simp
  show ?thesis
    unfolding code spec
    using sub fits lo unfolding spec SS 
    by (subst sint_add64) (simp_all add: SS)
qed


lemma example_COIN: "sint (COIN example_params) = 100000000"
  by (simp add: example_params_def)

theorem GetProofOfStakeReward_halving_witness:
  "13500 \<le> sint (1500000 :: int32) \<and> 0 \<le> sint (COIN example_params)
   \<and> 40 * sint (COIN example_params) * 999999 < 2 ^ 63
   \<and> pos_reward_spec (sint (COIN example_params)) (sint (5 :: int64)) (sint (1500000 :: int32)) < 2 ^ 63
   \<and> sint (GetProofOfStakeReward example_params 0 5 1500000) = 1500000005
   \<and> pos_reward_spec (sint (COIN example_params)) (sint (5 :: int64)) (sint (1500000 :: int32)) = 1500000005"
proof -
  have a: "13500 \<le> sint (1500000 :: int32)" by simp
  have b: "0 \<le> sint (COIN example_params)" by (simp add: example_COIN)
  have c: "40 * sint (COIN example_params) * 999999 < 2 ^ 63" by (simp add: example_COIN)
  have v: "pos_reward_spec (sint (COIN example_params)) (sint (5 :: int64)) (sint (1500000 :: int32))
           = 1500000005"
    by (simp add: example_COIN pos_reward_spec_def drop_bit_eq_div)
  have d: "pos_reward_spec (sint (COIN example_params)) (sint (5 :: int64)) (sint (1500000 :: int32)) < 2 ^ 63"
    by (simp only: v) simp
  from GetProofOfStakeReward_halving [OF a b c d, of 0] a b c d v show ?thesis by simp
qed

text \<open>
  C5 as stated fails where the fees are so large that the last addition leaves the range
  of \<open>int64_t\<close>: at height 13500 with fees \<open>2^63 - 1\<close> the function returns a negative
  value.
\<close>

theorem GetProofOfStakeReward_counterexample:
  "13500 \<le> sint (13500 :: int32)
   \<and> sint (GetProofOfStakeReward example_params 0 0x7FFFFFFFFFFFFFFF 13500)
       \<noteq> pos_reward_spec (sint (COIN example_params)) (sint (0x7FFFFFFFFFFFFFFF :: int64))
            (sint (13500 :: int32))"
proof -
  have code: "GetProofOfStakeReward example_params 0 0x7FFFFFFFFFFFFFFF 13500 = 9223372040827775807"
    by (simp add: GetProofOfStakeReward_def example_params_def g_RewardHalvingPeriod_def
        sdiv64_def word_sless_alt)
  have spec: "pos_reward_spec (sint (COIN example_params)) (sint (0x7FFFFFFFFFFFFFFF :: int64))
            (sint (13500 :: int32)) = 9223372040827775807"
    by (simp add: example_COIN pos_reward_spec_def drop_bit_eq_div)
  show ?thesis unfolding code spec by simp
qed

subsection \<open>CheckTransaction\<close>

lemma sint_add_nonneg:
  fixes a b :: int64
  assumes "0 \<le> sint a" "0 \<le> sint b" "0 \<le> sint (a + b)"
  shows "sint (a + b) = sint a + sint b"
proof (cases "sint a + sint b < 2 ^ 63")
  case True
  then show ?thesis using assms by (intro sint_add64) simp_all
next
  case False
  define t where "t = signed_take_bit 63 (sint a + sint b)"
  from False have "t \<le> sint a + sint b - 2 ^ 64"
    using signed_take_bit_int_less_eq [of 63 "sint a + sint b"] by (simp add: t_def)
  moreover have "sint a < 2 ^ 63" "sint b < 2 ^ 63"
    using sint_lt [of a] sint_lt [of b] by simp_all
  ultimately have "t < 0" by simp
  moreover have "sint (a + b) = t" by (simp add: t_def sint_word_add)
  ultimately have "sint (a + b) < 0" by simp
  with assms show ?thesis by simp
qed

lemma CheckTransaction_outputs_ok:
  assumes "CheckTransaction_outputs c user acc outs = Inr ()"
    and "0 \<le> sint acc"
  shows "(\<forall>out \<in> set outs. 0 \<le> sint (nValue out) \<and> sint (nValue out) \<le> sint (MAX_MONEY c))
       \<and> (\<forall>k. 0 < k \<and> k \<le> length outs \<longrightarrow>
             0 \<le> sint acc + (\<Sum>out\<leftarrow>take k outs. sint (nValue out))
           \<and> sint acc + (\<Sum>out\<leftarrow>take k outs. sint (nValue out)) \<le> sint (MAX_MONEY c))"
  using assms
proof (induction outs arbitrary: acc)
  case Nil
  then show ?case by simp
next
  case (Cons txout rest)
  from Cons.prems have v0: "0 \<le> sint (nValue txout)"
    and v1: "sint (nValue txout) \<le> sint (MAX_MONEY c)"
    and range: "MoneyRange c (acc + nValue txout)"
    and rec: "CheckTransaction_outputs c user (acc + nValue txout) rest = Inr ()"
    by (auto simp: DoS_def word_sless_alt word_sle_eq split: if_splits)
  from range have s0: "0 \<le> sint (acc + nValue txout)"
    and s1: "sint (acc + nValue txout) \<le> sint (MAX_MONEY c)"
    by (simp_all add: MoneyRange_def word_sle_eq)
  have sum: "sint (acc + nValue txout) = sint acc + sint (nValue txout)"
    using Cons.prems(2) v0 s0 by (rule sint_add_nonneg)
  note IH = Cons.IH [OF rec s0]
  show ?case
  proof (intro conjI ballI allI impI)
    fix out assume "out \<in> set (txout # rest)"
    then show "0 \<le> sint (nValue out)" "sint (nValue out) \<le> sint (MAX_MONEY c)"
      using v0 v1 IH by auto
  next
    fix k assume k: "0 < k \<and> k \<le> length (txout # rest)"
    then obtain j where kj: "k = Suc j" by (cases k) auto
    have "0 \<le> sint acc + (\<Sum>out\<leftarrow>take k (txout # rest). sint (nValue out))
        \<and> sint acc + (\<Sum>out\<leftarrow>take k (txout # rest). sint (nValue out)) \<le> sint (MAX_MONEY c)"
    proof (cases "j = 0")
      case True
      then show ?thesis using kj s0 s1 sum by simp
    next
      case False
      then have "0 < j \<and> j \<le> length rest" using k kj by simp
      with IH show ?thesis unfolding kj sum by (simp add: add.assoc)
    qed
    then show "0 \<le> sint acc + (\<Sum>out\<leftarrow>take k (txout # rest). sint (nValue out))"
      and "sint acc + (\<Sum>out\<leftarrow>take k (txout # rest). sint (nValue out)) \<le> sint (MAX_MONEY c)"
      by simp_all
  qed
qed

lemma duplicate_inputs_distinct:
  "\<not> duplicate_inputs S ins \<Longrightarrow>
   distinct (map prevout ins) \<and> set (map prevout ins) \<inter> S = {}"
  by (induction ins arbitrary: S) (auto split: if_splits)


text \<open>
  C2. \<open>CheckTransaction\<close> returns true only if: \<open>vin\<close> is non-empty; \<open>vout\<close> is
  non-empty; the serialized size is at most \<open>MAX_BLOCK_SIZE\<close>; every output value is in
  \<open>[0, MAX_MONEY]\<close>; the running sum of the output values (as an exact integer) stays in
  \<open>[0, MAX_MONEY]\<close>; no two inputs share an outpoint; a coinbase on mainnet has a
  \<open>scriptSig\<close> of 2 to 100 bytes; every input of a transaction that is not a coinbase has a
  non-null \<open>prevout\<close>.
\<close>

theorem CheckTransaction_sound:
  assumes ok: "CheckTransaction e c tx = Inr ()"
  shows "vin tx \<noteq> [] \<and> vout tx \<noteq> []
       \<and> GetSerializeSize_tx e tx \<le> MAX_BLOCK_SIZE c
       \<and> (\<forall>out \<in> set (vout tx).
             0 \<le> sint (nValue out) \<and> sint (nValue out) \<le> sint (MAX_MONEY c))
       \<and> (\<forall>k \<le> length (vout tx).
             0 \<le> (\<Sum>out\<leftarrow>take k (vout tx). sint (nValue out))
           \<and> (\<Sum>out\<leftarrow>take k (vout tx). sint (nValue out)) \<le> sint (MAX_MONEY c))
       \<and> distinct (map prevout (vin tx))
       \<and> (IsCoinBase tx \<and> \<not> fTestNet e \<longrightarrow>
             2 \<le> length (scriptSig (vin tx ! 0)) \<and> length (scriptSig (vin tx ! 0)) \<le> 100)
       \<and> (\<not> IsCoinBase tx \<longrightarrow> (\<forall>txin \<in> set (vin tx). \<not> IsNull (prevout txin)))"
proof -
  from ok have vin: "vin tx \<noteq> []" and vout: "vout tx \<noteq> []"
    and size: "GetSerializeSize_tx e tx \<le> MAX_BLOCK_SIZE c"
    by (auto simp: CheckTransaction_def DoS_def split: if_splits)
  from ok vin vout size
  have outs: "CheckTransaction_outputs c (\<not> IsCoinBase tx \<and> \<not> IsCoinStake tx) 0 (vout tx) = Inr ()"
    and rest: "\<not> duplicate_inputs {} (vin tx)"
      "IsCoinBase tx \<and> \<not> fTestNet e \<longrightarrow>
         2 \<le> length (scriptSig (hd (vin tx))) \<and> length (scriptSig (hd (vin tx))) \<le> 100"
      "\<not> IsCoinBase tx \<longrightarrow> \<not> list_ex (\<lambda>txin. IsNull (prevout txin)) (vin tx)"
    by (auto simp: CheckTransaction_def DoS_def error_def not_le
             split: if_splits sum.splits)
  have z: "0 \<le> sint (0 :: int64)" by simp
  note O = CheckTransaction_outputs_ok [OF outs z]
  from O have each: "\<forall>out \<in> set (vout tx).
      0 \<le> sint (nValue out) \<and> sint (nValue out) \<le> sint (MAX_MONEY c)"
    by blast
  from vout each have max0: "0 \<le> sint (MAX_MONEY c)"
    by (cases "vout tx") (auto intro: order_trans)
  have sums: "\<forall>k \<le> length (vout tx).
             0 \<le> (\<Sum>out\<leftarrow>take k (vout tx). sint (nValue out))
           \<and> (\<Sum>out\<leftarrow>take k (vout tx). sint (nValue out)) \<le> sint (MAX_MONEY c)"
  proof (intro allI impI)
    fix k assume k: "k \<le> length (vout tx)"
    show "0 \<le> (\<Sum>out\<leftarrow>take k (vout tx). sint (nValue out))
           \<and> (\<Sum>out\<leftarrow>take k (vout tx). sint (nValue out)) \<le> sint (MAX_MONEY c)"
    proof (cases "k = 0")
      case True
      then show ?thesis using max0 by simp
    next
      case False
      with k O show ?thesis by simp
    qed
  qed
  have hd: "hd (vin tx) = vin tx ! 0" using vin by (simp add: hd_conv_nth)
  from rest(1) have dist: "distinct (map prevout (vin tx))"
    by (simp add: duplicate_inputs_distinct)
  from rest(3) have nonnull: "\<not> IsCoinBase tx \<longrightarrow> (\<forall>txin \<in> set (vin tx). \<not> IsNull (prevout txin))"
    by (simp add: list_ex_iff)
  show ?thesis
    using vin vout size each sums dist rest(2) nonnull unfolding hd by blast
qed

lemma example_coinbase_ok: "CheckTransaction example_env example_params example_coinbase = Inr ()"
  by (simp add: CheckTransaction_def example_env_def example_params_def example_coinbase_def
      null_outpoint_def IsCoinBase_def IsCoinStake_def IsNull_def IsEmpty_def MoneyRange_def
      word_sless_alt word_sle_eq)

lemma example_tx_ok: "CheckTransaction example_env example_params example_tx = Inr ()"
  by (simp add: CheckTransaction_def example_env_def example_params_def example_tx_def
      IsCoinBase_def IsCoinStake_def IsNull_def IsEmpty_def MoneyRange_def
      word_sless_alt word_sle_eq)

theorem CheckTransaction_sound_witness:
  "CheckTransaction example_env example_params example_coinbase = Inr ()
   \<and> IsCoinBase example_coinbase \<and> \<not> fTestNet example_env
   \<and> 2 \<le> length (scriptSig (vin example_coinbase ! 0))
   \<and> CheckTransaction example_env example_params example_tx = Inr ()
   \<and> \<not> IsCoinBase example_tx
   \<and> \<not> IsNull (prevout (vin example_tx ! 1))
   \<and> distinct (map prevout (vin example_tx))
   \<and> (\<Sum>out\<leftarrow>take 2 (vout example_tx). sint (nValue out)) \<le> sint (MAX_MONEY example_params)"
proof -
  have cb: "IsCoinBase example_coinbase" "\<not> fTestNet example_env" "\<not> IsCoinBase example_tx"
    by (simp_all add: IsCoinBase_def example_coinbase_def null_outpoint_def IsNull_def
        example_env_def example_tx_def)
  have mem: "vin example_tx ! 1 \<in> set (vin example_tx)" "2 \<le> length (vout example_tx)"
    by (simp_all add: example_tx_def)
  from CheckTransaction_sound [OF example_coinbase_ok] CheckTransaction_sound [OF example_tx_ok]
    cb mem example_coinbase_ok example_tx_ok
  show ?thesis by blast
qed

subsection \<open>CheckBlock\<close>

lemma sint_ucast_time: "sint (ucast (t :: uint32) :: int64) = uint t"
proof -
  have b: "0 \<le> uint t" "uint t < 2 ^ 32"
    using uint_lt2p [of t] by simp_all
  then have "take_bit 64 (uint t) = uint t"
    by (intro take_bit_int_eq_self) simp_all
  moreover have "signed_take_bit 63 (uint t) = uint t"
  proof (rule signed_take_bit_int_eq_self)
    have "- (2 ^ 63) \<le> (0::int)" by simp
    also have "0 \<le> uint t" by simp
    finally show "- (2 ^ 63) \<le> uint t" .
    have "uint t < 2 ^ 32" by (rule b)
    also have "(2::int) ^ 32 < 2 ^ 63" by simp
    finally show "uint t < 2 ^ 63" .
  qed
  ultimately show ?thesis
    by (simp add: sint_uint unsigned_ucast_eq)
qed

lemma CheckBlock_transactions_times:
  "CheckBlock_transactions e c b txs = Inr () \<Longrightarrow>
   \<forall>tx \<in> set txs. CheckTransaction e c tx = Inr () \<and> uint (tx_nTime tx) \<le> uint (nTime b)"
  by (induction txs)
     (auto simp: DoS_def GetBlockTime_def word_sless_alt sint_ucast_time
           split: sum.splits if_splits)

lemma CheckBlock_accepts_transactions:
  "CheckBlock e c fCheckPOW fCheckMerkleRoot fCheckSig b = Inr () \<Longrightarrow>
   vtx b \<noteq> [] \<and> CheckBlock_transactions e c b (vtx b) = Inr ()"
  by (auto simp: CheckBlock_def DoS_def error_def split: if_splits sum.splits)

text \<open>
  C7. Every block that \<open>CheckBlock\<close> accepts has \<open>coinbase.time \<le> block.time +
  FUTURE_DRIFT\<close> and \<open>tx.time \<le> block.time\<close> for every transaction of the block; a
  block that violates one of the bounds is rejected. \<open>FUTURE_DRIFT\<close> is a drift, that
  is, not negative.
\<close>

theorem CheckBlock_timestamps:
  assumes drift: "0 \<le> sint (FUTURE_DRIFT c)"
  shows "(CheckBlock e c fCheckPOW fCheckMerkleRoot fCheckSig b = Inr () \<longrightarrow>
            uint (tx_nTime (vtx b ! 0)) \<le> uint (nTime b) + sint (FUTURE_DRIFT c)
          \<and> (\<forall>tx \<in> set (vtx b). uint (tx_nTime tx) \<le> uint (nTime b)))
       \<and> (uint (nTime b) + sint (FUTURE_DRIFT c) < uint (tx_nTime (vtx b ! 0))
            \<or> (\<exists>tx \<in> set (vtx b). uint (nTime b) < uint (tx_nTime tx)) \<longrightarrow>
          (\<exists>f. CheckBlock e c fCheckPOW fCheckMerkleRoot fCheckSig b = Inl f))"
proof -
  have acc: "uint (tx_nTime (vtx b ! 0)) \<le> uint (nTime b) + sint (FUTURE_DRIFT c)
          \<and> (\<forall>tx \<in> set (vtx b). uint (tx_nTime tx) \<le> uint (nTime b))"
    if ok: "CheckBlock e c fCheckPOW fCheckMerkleRoot fCheckSig b = Inr ()"
  proof -
    from CheckBlock_accepts_transactions [OF ok]
    have ne: "vtx b \<noteq> []" and txs: "CheckBlock_transactions e c b (vtx b) = Inr ()"
      by simp_all
    from CheckBlock_transactions_times [OF txs]
    have all: "\<forall>tx \<in> set (vtx b). uint (tx_nTime tx) \<le> uint (nTime b)" by blast
    from ne have "vtx b ! 0 \<in> set (vtx b)" by simp
    with all have "uint (tx_nTime (vtx b ! 0)) \<le> uint (nTime b)" by blast
    with drift all show ?thesis by simp
  qed
  have rej: "\<exists>f. CheckBlock e c fCheckPOW fCheckMerkleRoot fCheckSig b = Inl f"
    if bad: "uint (nTime b) + sint (FUTURE_DRIFT c) < uint (tx_nTime (vtx b ! 0))
            \<or> (\<exists>tx \<in> set (vtx b). uint (nTime b) < uint (tx_nTime tx))"
  proof (cases "CheckBlock e c fCheckPOW fCheckMerkleRoot fCheckSig b")
    case (Inl f)
    then show ?thesis by blast
  next
    case (Inr u)
    then have "CheckBlock e c fCheckPOW fCheckMerkleRoot fCheckSig b = Inr ()" by simp
    from acc [OF this] bad show ?thesis by (auto simp: not_less [symmetric])
  qed
  from acc rej show ?thesis by blast
qed

lemma example_block_pow: "IsProofOfStake example_block = False"
  by (simp add: example_block_def example_pow_block_def IsProofOfStake_def IsCoinStake_def
      example_tx_def IsEmpty_def)

lemma example_block_ok: "CheckBlock example_env example_params True True True example_block = Inr ()"
proof -
  have txs: "CheckBlock_transactions example_env example_params example_block (vtx example_block) = Inr ()"
    by (simp add: example_block_def example_pow_block_def example_coinbase_ok example_tx_ok
        GetBlockTime_def word_sless_alt)
      (simp add: example_coinbase_def example_tx_def)
  have sig: "(\<Sum>tx\<leftarrow>vtx example_block. GetLegacySigOpCount example_env tx) = 0"
    by (simp add: example_block_def example_pow_block_def GetLegacySigOpCount_def
        example_env_def example_coinbase_def example_tx_def)
  have cb: "IsCoinBase example_coinbase" "\<not> IsCoinBase example_tx"
    by (simp_all add: IsCoinBase_def example_coinbase_def null_outpoint_def IsNull_def example_tx_def)
  have stake: "CheckBlock_stake example_env True example_block = Inr ()"
    by (simp add: CheckBlock_stake_def example_block_pow)
  have hashes: "map (GetHash_tx example_env) (vtx example_block) = [5794967296, 10089933592]"
    by (simp add: example_block_def example_pow_block_def example_env_def
        example_coinbase_def example_tx_def)
  show ?thesis
    unfolding CheckBlock_def stake txs sig hashes
    by (simp add: example_block_def example_pow_block_def cb FutureDrift_def GetBlockTime_def
        word_sless_alt)
      (simp add: example_env_def example_params_def example_coinbase_def)
qed

theorem CheckBlock_timestamps_witness:
  "0 \<le> sint (FUTURE_DRIFT example_params)
   \<and> CheckBlock example_env example_params True True True example_block = Inr ()
   \<and> uint (tx_nTime (vtx example_block ! 0)) \<le> uint (nTime example_block) + sint (FUTURE_DRIFT example_params)
   \<and> uint (tx_nTime (vtx example_block ! 1)) \<le> uint (nTime example_block)
   \<and> uint (nTime late_tx_block) < uint (tx_nTime (vtx late_tx_block ! 1))
   \<and> CheckBlock example_env example_params True True True late_tx_block \<noteq> Inr ()"
proof -
  have d: "0 \<le> sint (FUTURE_DRIFT example_params)" by (simp add: example_params_def)
  have m: "vtx example_block ! 1 \<in> set (vtx example_block)"
    "vtx late_tx_block ! 1 \<in> set (vtx late_tx_block)"
    by (simp_all add: example_block_def late_tx_block_def)
  have late: "uint (nTime late_tx_block) < uint (tx_nTime (vtx late_tx_block ! 1))"
    by (simp add: late_tx_block_def example_pow_block_def)
  from CheckBlock_timestamps [OF d, where e = example_env and b = example_block
        and fCheckPOW = True and fCheckMerkleRoot = True and fCheckSig = True]
    CheckBlock_timestamps [OF d, where e = example_env and b = late_tx_block
        and fCheckPOW = True and fCheckMerkleRoot = True and fCheckSig = True]
    d m late example_block_ok
  show ?thesis by (metis sum.distinct(1))
qed

subsection \<open>GetMinFee\<close>

lemma GetMinFee_dust_none:
  "\<forall>out \<in> set outs. \<not> nValue out <s CENT c \<Longrightarrow> GetMinFee_dust c b f outs = f"
  by (induction outs arbitrary: f) simp_all

lemma GetMinFee_dust_base: "GetMinFee_dust c b b outs = b"
  by (induction outs) simp_all

lemma GetMinFee_dust_some:
  "\<exists>out \<in> set outs. nValue out <s CENT c \<Longrightarrow> GetMinFee_dust c b f outs = b"
proof (induction outs arbitrary: f)
  case Nil
  then show ?case by simp
next
  case (Cons out outs)
  show ?case
  proof (cases "nValue out <s CENT c")
    case True
    then show ?thesis by (simp add: GetMinFee_dust_base)
  next
    case False
    with Cons show ?thesis by simp
  qed
qed

lemma sdiv64_bytes:
  "sdiv64 (ucast (nBytes :: uint32)) 1000 = word_of_int (uint nBytes div 1000)"
proof -
  have "sint (ucast nBytes :: int64) sdiv sint (1000 :: int64) = uint nBytes div 1000"
    by (simp add: sint_ucast_time sdiv_nonneg)
  then show ?thesis by (simp only: sdiv64_def)
qed

lemma GetMinFee_fee1:
  "(let nBaseFee = base_fee c mode; nMinFee0 = (1 + sdiv64 (ucast nBytes) 1000) * nBaseFee
    in if nMinFee0 <s nBaseFee then GetMinFee_dust c nBaseFee nMinFee0 (vout tx) else nMinFee0)
   = dust_fee c tx mode nBytes"
proof (cases "\<exists>out \<in> set (vout tx). nValue out <s CENT c")
  case True
  then show ?thesis
    by (simp add: Let_def dust_fee_def size_fee_def sdiv64_bytes GetMinFee_dust_some)
next
  case False
  then have "GetMinFee_dust c b f (vout tx) = f" for b f
    by (intro GetMinFee_dust_none) simp
  with False show ?thesis
    by (simp add: Let_def dust_fee_def size_fee_def sdiv64_bytes)
qed

text \<open>
  C8 (amended). \<open>GetMinFee(nBlockSize, mode, nBytes)\<close> computes, in \<open>int64_t\<close>,
  \<open>fee = (1 + nBytes/1000) * base\<close> with \<open>base = MIN_RELAY_TX_FEE\<close> in relay mode and
  \<open>MIN_TX_FEE\<close> otherwise, and an output below \<open>CENT\<close> raises a fee below \<open>base\<close> to
  \<open>base\<close>. Unless \<open>nBlockSize\<close> is 1: when the projected size \<open>nBlockSize + nBytes\<close> (an
  \<open>unsigned int\<close>) reaches \<open>MAX_BLOCK_SIZE_GEN/2\<close> the fee is multiplied by
  \<open>MAX_BLOCK_SIZE_GEN / (MAX_BLOCK_SIZE_GEN - (nBlockSize + nBytes))\<close>, and when it reaches
  \<open>MAX_BLOCK_SIZE_GEN\<close> the result is \<open>MAX_MONEY\<close>. A fee outside \<open>[0, MAX_MONEY]\<close> is
  replaced by \<open>MAX_MONEY\<close>. With \<open>nBlockSize = 1\<close> the fee depends on \<open>nBytes\<close> alone.
\<close>

theorem GetMinFee_amended:
  "GetMinFee c tx nBlockSize mode nBytes =
     (if nBlockSize = 1 \<or> nBlockSize + nBytes < MAX_BLOCK_SIZE_GEN c div 2
      then money_clamp c (dust_fee c tx mode nBytes)
      else if nBlockSize + nBytes < MAX_BLOCK_SIZE_GEN c
      then money_clamp c (dust_fee c tx mode nBytes *
             ucast (MAX_BLOCK_SIZE_GEN c div (MAX_BLOCK_SIZE_GEN c - (nBlockSize + nBytes))))
      else MAX_MONEY c)
   \<and> ((\<exists>out \<in> set (vout tx). nValue out <s CENT c) \<longrightarrow>
        base_fee c mode \<le>s dust_fee c tx mode nBytes)
   \<and> (0 \<le> sint (base_fee c mode) \<and> (1 + uint nBytes div 1000) * sint (base_fee c mode) < 2 ^ 63 \<longrightarrow>
        sint (dust_fee c tx mode nBytes) = (1 + uint nBytes div 1000) * sint (base_fee c mode))"
proof (intro conjI impI)
  note fee1 = GetMinFee_fee1 [of c mode nBytes tx, unfolded Let_def base_fee_def]
  show "GetMinFee c tx nBlockSize mode nBytes =
     (if nBlockSize = 1 \<or> nBlockSize + nBytes < MAX_BLOCK_SIZE_GEN c div 2
      then money_clamp c (dust_fee c tx mode nBytes)
      else if nBlockSize + nBytes < MAX_BLOCK_SIZE_GEN c
      then money_clamp c (dust_fee c tx mode nBytes *
             ucast (MAX_BLOCK_SIZE_GEN c div (MAX_BLOCK_SIZE_GEN c - (nBlockSize + nBytes))))
      else MAX_MONEY c)"
  proof (cases "nBlockSize \<noteq> 1 \<and> MAX_BLOCK_SIZE_GEN c div 2 \<le> nBlockSize + nBytes")
    case True
    then have p: "(nBlockSize \<noteq> 1 \<and> MAX_BLOCK_SIZE_GEN c div 2 \<le> nBlockSize + nBytes) = True"
      and q: "(nBlockSize = 1 \<or> nBlockSize + nBytes < MAX_BLOCK_SIZE_GEN c div 2) = False"
      by (simp_all add: not_less)
    show ?thesis
    proof (cases "MAX_BLOCK_SIZE_GEN c \<le> nBlockSize + nBytes")
      case full: True
      then have r: "(MAX_BLOCK_SIZE_GEN c \<le> nBlockSize + nBytes) = True"
        and t: "(nBlockSize + nBytes < MAX_BLOCK_SIZE_GEN c) = False"
        by (simp_all add: not_less)
      show ?thesis
        unfolding GetMinFee_def Let_def fee1 p q r t by simp
    next
      case False
      then have r: "(MAX_BLOCK_SIZE_GEN c \<le> nBlockSize + nBytes) = False"
        and t: "(nBlockSize + nBytes < MAX_BLOCK_SIZE_GEN c) = True"
        by (simp_all add: not_le)
      show ?thesis
        unfolding GetMinFee_def Let_def fee1 p q r t
        by (simp add: money_clamp_def MoneyRange_def)
    qed
  next
    case False
    then have p: "(nBlockSize \<noteq> 1 \<and> MAX_BLOCK_SIZE_GEN c div 2 \<le> nBlockSize + nBytes) = False"
      and q: "(nBlockSize = 1 \<or> nBlockSize + nBytes < MAX_BLOCK_SIZE_GEN c div 2) = True"
      by (auto simp: not_le)
    show ?thesis
      unfolding GetMinFee_def Let_def fee1 p q
      by (simp add: money_clamp_def MoneyRange_def)
  qed
next
  assume "\<exists>out \<in> set (vout tx). nValue out <s CENT c"
  then show "base_fee c mode \<le>s dust_fee c tx mode nBytes"
    by (auto simp: dust_fee_def word_sle_eq word_sless_alt)
next
  let ?k = "1 + uint nBytes div 1000" and ?b = "sint (base_fee c mode)"
  assume a: "0 \<le> ?b \<and> ?k * ?b < 2 ^ 63"
  have k1: "1 \<le> ?k" by (simp add: pos_imp_zdiv_nonneg_iff)
  have kb: "?k < 2 ^ 63"
  proof -
    have "uint nBytes div 1000 \<le> uint nBytes" using uint_ge_0 [of nBytes] by linarith
    also have "uint nBytes < 2 ^ 32" using uint_lt2p [of nBytes] by simp
    finally show ?thesis by simp
  qed
  have sk: "sint (1 + word_of_int (uint nBytes div 1000) :: int64) = ?k"
  proof -
    have "(1 + word_of_int (uint nBytes div 1000) :: int64) = word_of_int ?k" by simp
    moreover have "sint (word_of_int ?k :: int64) = ?k"
      using k1 kb by (intro sint_in_range64) simp_all
    ultimately show ?thesis by simp
  qed
  have ge: "?b \<le> ?k * ?b" using a k1 by (simp add: mult_le_cancel_right1)
  have sf: "sint (size_fee c mode nBytes) = ?k * ?b"
    unfolding size_fee_def using a ge by (subst sint_mult64) (simp_all only: sk, simp_all)
  then have "\<not> size_fee c mode nBytes <s base_fee c mode"
    using ge by (simp add: word_sless_alt)
  then show "sint (dust_fee c tx mode nBytes) = ?k * ?b"
    by (simp add: dust_fee_def sf)
qed

lemma example_fees:
  "base_fee example_params GMF_BLOCK = 10000"
  "size_fee example_params GMF_BLOCK 100000 = 1010000"
  "dust_fee example_params dust_tx GMF_BLOCK 100000 = 1010000"
  by (simp_all add: base_fee_def size_fee_def dust_fee_def example_params_def word_sless_alt)

theorem GetMinFee_amended_witness:
  "GetMinFee example_params dust_tx 300000 GMF_BLOCK 100000 = 5050000
   \<and> GetMinFee example_params dust_tx 400000 GMF_BLOCK 100000 = MAX_MONEY example_params
   \<and> GetMinFee example_params dust_tx 1 GMF_BLOCK 100000 = 1010000
   \<and> nValue (vout dust_tx ! 0) <s CENT example_params
   \<and> base_fee example_params GMF_BLOCK \<le>s dust_fee example_params dust_tx GMF_BLOCK 100000
   \<and> sint (dust_fee example_params dust_tx GMF_BLOCK 100000) = 1010000"
proof -
  have dust: "vout dust_tx ! 0 \<in> set (vout dust_tx)" "nValue (vout dust_tx ! 0) <s CENT example_params"
    by (simp_all add: dust_tx_def example_params_def word_sless_alt)
  have arith: "0 \<le> sint (base_fee example_params GMF_BLOCK)
      \<and> (1 + uint (100000 :: uint32) div 1000) * sint (base_fee example_params GMF_BLOCK) < 2 ^ 63"
    by (simp add: example_fees)
  have sizes: "MAX_BLOCK_SIZE_GEN example_params = 500000" "MAX_MONEY example_params = 6800000000000000"
    by (simp_all add: example_params_def)
  have a: "GetMinFee example_params dust_tx 300000 GMF_BLOCK 100000 = 5050000"
    using GetMinFee_amended [of example_params dust_tx 300000 GMF_BLOCK 100000]
    by (simp add: example_fees sizes money_clamp_def word_sle_eq)
  have b: "GetMinFee example_params dust_tx 400000 GMF_BLOCK 100000 = MAX_MONEY example_params"
    using GetMinFee_amended [of example_params dust_tx 400000 GMF_BLOCK 100000]
    by (simp add: example_fees sizes)
  have c: "GetMinFee example_params dust_tx 1 GMF_BLOCK 100000 = 1010000"
    using GetMinFee_amended [of example_params dust_tx 1 GMF_BLOCK 100000]
    by (simp add: example_fees sizes money_clamp_def word_sle_eq)
  from GetMinFee_amended [of example_params dust_tx 1 GMF_BLOCK 100000] dust arith
  have d: "base_fee example_params GMF_BLOCK \<le>s dust_fee example_params dust_tx GMF_BLOCK 100000"
    and e: "sint (dust_fee example_params dust_tx GMF_BLOCK 100000)
            = (1 + uint (100000 :: uint32) div 1000) * sint (base_fee example_params GMF_BLOCK)"
    by blast+
  from e have e': "sint (dust_fee example_params dust_tx GMF_BLOCK 100000) = 1010000"
    by (simp add: example_fees)
  from a b c d e' dust(2) show ?thesis by simp
qed

text \<open>
  C8 as stated fails for \<open>nBlockSize = 1\<close>, the value that switches the block-size rule
  off: with 499999 bytes the projected size is \<open>MAX_BLOCK_SIZE_GEN\<close> and the result is the
  fee by size, 500 times the base fee, not \<open>MAX_MONEY\<close>.
\<close>

theorem GetMinFee_counterexample:
  "MAX_BLOCK_SIZE_GEN example_params \<le> 1 + 499999
   \<and> GetMinFee example_params example_tx 1 GMF_RELAY 499999 = 5000000
   \<and> GetMinFee example_params example_tx 1 GMF_RELAY 499999 \<noteq> MAX_MONEY example_params"
  by (simp add: GetMinFee_def example_params_def sdiv64_def MoneyRange_def word_sless_alt
      word_sle_eq)

subsection \<open>GetNextTargetRequired\<close>

lemma retarget_eq:
  assumes "- (2 ^ 32) < sint d" "sint d < 2 ^ 32"
  shows "retarget L T d =
     (let q = (T * (1106 + 2 * effective_spacing (sint d))) sdiv 1264
      in if q \<le> 0 \<or> q > L then L else q)"
proof -
  have iv: "sdiv64 nTargetTimespan (ucast nTargetSpacing) = 15"
    by (simp add: sdiv64_def nTargetTimespan_def nTargetSpacing_def)
  have den: "sint ((15 + 1) * ucast nTargetSpacing :: int64) = 1264"
    by (simp add: nTargetSpacing_def)
  let ?s = "if d <s 0 then ucast nTargetSpacing else d :: int64"
  have s: "sint ?s = effective_spacing (sint d)"
    by (simp add: effective_spacing_def word_sless_alt nTargetSpacing_def)
  have s0: "0 \<le> sint ?s" "sint ?s < 2 ^ 32"
    using assms by (auto simp: s effective_spacing_def)
  have "sint ((15 - 1) * ucast nTargetSpacing + ?s + ?s :: int64) = 1106 + 2 * sint ?s"
  proof -
    have a: "(15 - 1) * ucast nTargetSpacing = (1106 :: int64)"
      by (simp add: nTargetSpacing_def)
    have b: "sint (1106 + ?s :: int64) = 1106 + sint ?s"
      using s0 by (subst sint_add64) simp_all
    have c: "sint (1106 + ?s + ?s :: int64) = 1106 + sint ?s + sint ?s"
      using s0 b by (subst sint_add64) simp_all
    show ?thesis unfolding a using c by simp
  qed
  then show ?thesis
    unfolding retarget_def Let_def iv den by (simp only: s)
qed



lemma sdiv_nonpos: "a \<le> 0 \<Longrightarrow> 0 < b \<Longrightarrow> a sdiv b \<le> (0::int)"
  by (cases "a = 0") (simp_all add: signed_divide_int_def pos_imp_zdiv_nonneg_iff)

lemma retarget_mono:
  assumes d1: "- (2 ^ 32) < sint d1" "sint d1 < 2 ^ 32"
    and d2: "- (2 ^ 32) < sint d2" "sint d2 < 2 ^ 32"
    and le: "effective_spacing (sint d1) \<le> effective_spacing (sint d2)"
    and T: "T \<noteq> 1"
  shows "retarget L T d1 = retarget L T d2
       \<or> (0 < retarget L T d1 \<and> retarget L T d1 \<le> retarget L T d2 \<and> retarget L T d2 \<le> L)"
proof -
  let ?m1 = "1106 + 2 * effective_spacing (sint d1)"
  let ?m2 = "1106 + 2 * effective_spacing (sint d2)"
  have e0: "0 \<le> effective_spacing (sint d1)" by (simp add: effective_spacing_def)
  have m: "1106 \<le> ?m1" "?m1 \<le> ?m2" using e0 le by simp_all
  show ?thesis
  proof (cases "T \<le> 0")
    case True
    have "T * ?m1 \<le> 0" "T * ?m2 \<le> 0"
      using True m by (simp_all add: mult_le_0_iff)
    then have "(T * ?m1) sdiv 1264 \<le> 0" "(T * ?m2) sdiv 1264 \<le> 0"
      by (simp_all add: sdiv_nonpos)
    then show ?thesis
      unfolding retarget_eq [OF d1] retarget_eq [OF d2] Let_def by simp
  next
    case False
    with T have T2: "2 \<le> T" by simp
    have p1: "0 \<le> T * ?m1" and p2: "0 \<le> T * ?m2" using T2 m by simp_all
    have q: "(T * ?m1) sdiv 1264 = T * ?m1 div 1264" "(T * ?m2) sdiv 1264 = T * ?m2 div 1264"
      using p1 p2 by (simp_all add: sdiv_nonneg)
    have "T * ?m1 \<le> T * ?m2" using T2 m by (intro mult_left_mono) simp_all
    then have q12: "T * ?m1 div 1264 \<le> T * ?m2 div 1264" by (intro zdiv_mono1) simp_all
    have "2 * 1106 \<le> T * ?m1" using T2 m(1) by (intro mult_mono) simp_all
    then have "1264 div 1264 \<le> T * ?m1 div (1264::int)" by (intro zdiv_mono1) simp_all
    then have q1: "1 \<le> T * ?m1 div 1264" by simp
    define q1 where "q1 = T * ?m1 div 1264"
    define q2 where "q2 = T * ?m2 div 1264"
    have r1: "retarget L T d1 = (if q1 \<le> 0 \<or> q1 > L then L else q1)"
      unfolding retarget_eq [OF d1] Let_def q q1_def ..
    have r2: "retarget L T d2 = (if q2 \<le> 0 \<or> q2 > L then L else q2)"
      unfolding retarget_eq [OF d2] Let_def q q2_def ..
    from q12 q1 have "q1 \<le> q2" "1 \<le> q1" by (simp_all add: q1_def q2_def)
    then show ?thesis unfolding r1 r2 by auto
  qed
qed

lemma diff_range_int:
  fixes a b :: int
  assumes "0 \<le> a" "a < 2 ^ 32" "0 \<le> b" "b < 2 ^ 32"
  shows "- (2 ^ 32) < a - b" "a - b < 2 ^ 32" "- (2 ^ 63) \<le> a - b" "a - b < 2 ^ 63"
  using assms by simp_all

lemma time_diff_range:
  "- (2 ^ 32) < uint (t1 :: uint32) - uint (t2 :: uint32)" "uint t1 - uint t2 < 2 ^ 32"
  "- (2 ^ 63) \<le> uint t1 - uint t2" "uint t1 - uint t2 < 2 ^ 63"
proof -
  have b: "uint t1 < 2 ^ 32" "uint t2 < 2 ^ 32"
    using uint_lt2p [of t1] uint_lt2p [of t2] by simp_all
  note r = diff_range_int [OF uint_ge_0 b(1) uint_ge_0 b(2)]
  show "- (2 ^ 32) < uint t1 - uint t2" "uint t1 - uint t2 < 2 ^ 32"
    "- (2 ^ 63) \<le> uint t1 - uint t2" "uint t1 - uint t2 < 2 ^ 63"
    by (rule r)+
qed

lemma sint_time_diff:
  "sint (ucast (t1 :: uint32) - ucast (t2 :: uint32) :: int64) = uint t1 - uint t2"
  using time_diff_range(3,4) [of t1 t2]
  by (subst sint_diff64) (simp_all only: sint_ucast_time)

lemma next_target_retarget:
  assumes "actual_spacing l f = Some d"
  shows "\<exists>x :: int64. sint x = d \<and> - (2 ^ 32) < sint x \<and> sint x < 2 ^ 32
       \<and> next_target e l f =
           retarget (if f then GetPOSLimit e (nHeight l) else bnProofOfWorkLimit e)
                    (SetCompact e (prior_bits l f)) x"
proof -
  let ?p = "GetLastBlockIndex l f"
  from assms obtain a where a: "pprev ?p = Some a"
    by (auto simp: actual_spacing_def Let_def split: option.splits)
  let ?pp = "GetLastBlockIndex a f"
  from assms a obtain b where b: "pprev ?pp = Some b"
    and d: "d = uint (idx_nTime ?p) - uint (idx_nTime ?pp)"
    by (auto simp: actual_spacing_def Let_def split: option.splits)
  let ?x = "idx_GetBlockTime ?p - idx_GetBlockTime ?pp"
  have x: "sint ?x = d"
    by (simp add: idx_GetBlockTime_def sint_time_diff d)
  have r: "- (2 ^ 32) < sint ?x" "sint ?x < 2 ^ 32"
    unfolding x d by (rule time_diff_range)+
  have n: "next_target e l f =
           retarget (if f then GetPOSLimit e (nHeight l) else bnProofOfWorkLimit e)
                    (SetCompact e (prior_bits l f)) ?x"
    by (simp add: next_target_def Let_def a b prior_bits_def)
  from x r n show ?thesis by blast
qed

text \<open>The compact format of the examples is order-preserving: reading back the
  encoding of a positive target below \<open>2^236\<close> keeps its leading bytes.\<close>

lemma num_bytes_bounds:
  "0 < k \<Longrightarrow> 256 ^ (num_bytes k - 1) \<le> k \<and> k < 256 ^ num_bytes k"
proof (induction k rule: num_bytes.induct)
  case (1 k)
  show ?case
  proof (cases "k div 256 = 0")
    case True
    with "1.prems" have "k < 256" by (simp add: div_pos_pos_trivial zdiv_eq_0_iff)
    moreover have "num_bytes k = 1"
      using "1.prems" True by (simp add: num_bytes.simps [of k] num_bytes.simps [of 0])
    ultimately show ?thesis using "1.prems" by simp
  next
    case False
    with "1.prems" have pos: "0 < k div 256"
      by (simp add: pos_imp_zdiv_pos_iff zdiv_eq_0_iff)
    from "1.IH" [OF _ pos] "1.prems"
    have IH: "256 ^ (num_bytes (k div 256) - 1) \<le> k div 256" "k div 256 < 256 ^ num_bytes (k div 256)"
      by simp_all
    have nb: "num_bytes k = Suc (num_bytes (k div 256))"
      using "1.prems" by (simp add: num_bytes.simps [of k])
    have n1: "0 < num_bytes (k div 256)"
      using pos by (simp add: num_bytes.simps [of "k div 256"])
    have "256 * 256 ^ (num_bytes (k div 256) - 1) \<le> 256 * (k div 256)" using IH(1) by simp
    also have "\<dots> \<le> k"
      using div_mult_mod_eq [of k 256] pos_mod_sign [of 256 k] by simp
    finally have lo: "256 ^ num_bytes (k div 256) \<le> k"
      using n1 by (cases "num_bytes (k div 256)") simp_all
    have "k div 256 + 1 \<le> 256 ^ num_bytes (k div 256)" using IH(2) by simp
    then have "256 * (k div 256 + 1) \<le> 256 * 256 ^ num_bytes (k div 256)" by simp
    moreover have "k < 256 * (k div 256 + 1)"
      using div_mult_mod_eq [of k 256] pos_mod_bound [of 256 k] by simp
    ultimately have hi: "k < 256 ^ Suc (num_bytes (k div 256))" by simp
    from lo hi show ?thesis by (simp add: nb)
  qed
qed


lemma or_disjoint_int:
  fixes m :: int
  assumes m: "0 \<le> m" "m < 2 ^ 24"
  shows "push_bit 24 (int sz) OR m = int sz * 2 ^ 24 + m"
proof -
  have tm: "take_bit 24 m = m" using m by (simp add: take_bit_int_eq_self)
  have "push_bit 24 (int sz) + m = push_bit 24 (int sz) OR m"
  proof (rule disjunctive_add_eq_or)
    show "push_bit 24 (int sz) AND m = 0"
    proof (rule bit_eqI)
      fix k
      have "bit m k \<longleftrightarrow> bit (take_bit 24 m) k" by (simp only: tm)
      then show "bit (push_bit 24 (int sz) AND m) k \<longleftrightarrow> bit (0::int) k"
        by (auto simp: bit_simps)
    qed
  qed
  then show ?thesis by (simp add: push_bit_eq_mult)
qed

lemma compact_word:
  fixes m :: int
  assumes sz: "sz < 256" and m: "0 \<le> m" "m < 2 ^ 23"
  defines "c \<equiv> (push_bit 24 (word_of_nat sz) OR word_of_int m OR 0 :: uint32)"
  shows "uint c = int sz * 2 ^ 24 + m"
proof -
  have m24: "m < 2 ^ 24" using m by simp
  have a: "uint (word_of_int m :: uint32) = m"
    using m by (simp add: uint_word_of_int take_bit_int_eq_self)
  have n0: "int sz * 2 ^ 24 < 2 ^ 32" using sz by simp
  have b: "uint (push_bit 24 (word_of_nat sz) :: uint32) = push_bit 24 (int sz)"
  proof -
    have "uint (push_bit 24 (word_of_nat sz) :: uint32) = take_bit 32 (push_bit 24 (int sz))"
      by (simp add: unsigned_push_bit_eq unsigned_of_nat take_bit_push_bit take_bit_of_nat)
    also have "\<dots> = push_bit 24 (int sz)"
      using n0 by (simp add: take_bit_int_eq_self push_bit_eq_mult)
    finally show ?thesis .
  qed
  show ?thesis
    unfolding c_def by (simp only: uint_or a b or_disjoint_int [OF m(1) m24] or.right_neutral)
qed


lemma compact_decode_word:
  fixes m :: int
  assumes sz: "sz < 256" and m: "0 \<le> m" "m < 2 ^ 23"
  shows "compact_decode (push_bit 24 (word_of_nat sz) OR word_of_int m OR 0)
         = (if sz \<le> 3 then drop_bit (8 * (3 - sz)) m else push_bit (8 * (sz - 3)) m)"
proof -
  define c :: uint32 where "c = push_bit 24 (word_of_nat sz) OR word_of_int m OR 0"
  have u: "uint c = int sz * 2 ^ 24 + m"
    unfolding c_def by (rule compact_word [OF sz m])
  have size: "unat (drop_bit 24 c) = sz"
  proof -
    have "uint (drop_bit 24 c) = drop_bit 24 (take_bit 32 (uint c))"
      by (simp only: unsigned_drop_bit_eq) simp
    also have "take_bit 32 (uint c) = uint c"
      using uint_lt2p [of c] by (intro take_bit_int_eq_self) simp_all
    also have "drop_bit 24 (uint c) = (int sz * 2 ^ 24 + m) div 2 ^ 24"
      by (simp only: u drop_bit_eq_div)
    also have "\<dots> = int sz" using m by simp
    finally have "int (unat (drop_bit 24 c)) = int sz" by simp
    then show ?thesis by (simp only: of_nat_eq_iff)
  qed
  have mant: "uint (c AND 0x7FFFFF) = m"
  proof -
    have k: "(0x7FFFFF :: uint32) = mask 23" by (simp add: mask_eq_exp_minus_1)
    have "uint (c AND mask 23) = take_bit 23 (uint c)"
      by (simp add: unsigned_and_eq take_bit_eq_mask [symmetric] unsigned_take_bit_eq flip: take_bit_eq_mask)
    also have "\<dots> = (int sz * 2 ^ 24 + m) mod 2 ^ 23" by (simp add: u take_bit_eq_mod)
    also have "\<dots> = m mod 2 ^ 23"
    proof -
      have "int sz * 2 ^ 24 + m = m + (2 * int sz) * 2 ^ 23" by simp
      then show ?thesis by (simp only: mod_mult_self1)
    qed
    also have "\<dots> = m" using m by simp
    finally show ?thesis by (simp only: k)
  qed
  have sign: "\<not> bit c 23"
  proof -
    have "bit c 23 \<longleftrightarrow> bit (uint c) 23" by (simp add: bit_uint_iff)
    also have "\<dots> \<longleftrightarrow> odd ((int sz * 2 ^ 24 + m) div 2 ^ 23)" by (simp add: u bit_iff_odd)
    also have "(int sz * 2 ^ 24 + m) div 2 ^ 23 = 2 * int sz"
    proof -
      have "int sz * 2 ^ 24 + m = m + (2 * int sz) * 2 ^ 23" by simp
      then have "(int sz * 2 ^ 24 + m) div 2 ^ 23 = m div 2 ^ 23 + 2 * int sz"
        by (simp only: div_mult_self1) simp
      then show ?thesis using m by simp
    qed
    finally show ?thesis by simp
  qed
  show ?thesis
    unfolding compact_decode_def Let_def c_def [symmetric] size mant using sign by simp
qed


lemma div_mult_le_int: "0 < b \<Longrightarrow> x div b * b \<le> (x :: int)"
  using div_mult_mod_eq [of x b] pos_mod_sign [of b x] by linarith

lemma div_less_int:
  fixes x :: int
  assumes b: "0 < b" and x: "x < c * b"
  shows "x div b < c"
proof (rule ccontr)
  assume "\<not> x div b < c"
  then have "c * b \<le> x div b * b" using b by (intro mult_right_mono) simp_all
  also have "\<dots> \<le> x" by (rule div_mult_le_int [OF b])
  finally show False using x by simp
qed

lemma num_bytes_mono:
  assumes "0 < a" "a \<le> b"
  shows "num_bytes a \<le> num_bytes b"
proof (rule ccontr)
  assume "\<not> num_bytes a \<le> num_bytes b"
  then have lt: "num_bytes b \<le> num_bytes a - 1" by simp
  from assms have b0: "0 < b" by simp
  have "b < 256 ^ num_bytes b" using num_bytes_bounds [OF b0] by simp
  also have "(256 :: int) ^ num_bytes b \<le> 256 ^ (num_bytes a - 1)"
    using lt by (intro power_increasing) simp_all
  also have "\<dots> \<le> a" using num_bytes_bounds [OF assms(1)] by simp
  finally show False using assms(2) by simp
qed

lemma encode_size:
  assumes "0 < x" "x < 2 ^ 236"
  shows "0 < num_bytes (2 * x)" "num_bytes (2 * x) \<le> 30"
proof -
  from assms have p: "0 < 2 * x" by simp
  show "0 < num_bytes (2 * x)" using p by (simp add: num_bytes.simps [of "2 * x"])
  have "(256 :: int) ^ (num_bytes (2 * x) - 1) \<le> 2 * x" using num_bytes_bounds [OF p] by simp
  also have "\<dots> < 256 ^ 30" using assms by simp
  finally have "num_bytes (2 * x) - 1 < 30"
    by (rule power_less_imp_less_exp [rotated]) simp
  then show "num_bytes (2 * x) \<le> 30" by simp
qed

lemma decode_encode:
  assumes x: "0 < x" "x < 2 ^ 236"
  shows "compact_decode (compact_encode x) =
     (if num_bytes (2 * x) \<le> 3 then x
      else x div 2 ^ (8 * (num_bytes (2 * x) - 3)) * 2 ^ (8 * (num_bytes (2 * x) - 3)))"
proof -
  define sz where "sz = num_bytes (2 * x)"
  have sz: "0 < sz" "sz \<le> 30" "sz < 256"
    using encode_size [OF x] by (simp_all add: sz_def)
  have hi: "2 * x < 2 ^ (8 * sz)"
  proof -
    from x have p: "0 < 2 * x" by simp
    have "2 * x < 256 ^ sz" using num_bytes_bounds [OF p] by (simp add: sz_def)
    also have "(256 :: int) ^ sz = 2 ^ (8 * sz)"
      using power_mult [of "2 :: int" 8 sz] by simp
    finally show ?thesis .
  qed
  define m where "m = (if sz \<le> 3 then push_bit (8 * (3 - sz)) x else drop_bit (8 * (sz - 3)) x)"
  have m0: "0 \<le> m" using x by (simp add: m_def)
  have m1: "m < 2 ^ 23"
  proof (cases "sz \<le> 3")
    case True
    have "2 * m = 2 * x * 2 ^ (8 * (3 - sz))" using True by (simp add: m_def push_bit_eq_mult)
    also have "\<dots> < 2 ^ (8 * sz) * 2 ^ (8 * (3 - sz))"
      using hi by (intro mult_strict_right_mono) simp_all
    also have "\<dots> = 2 ^ (8 * sz + 8 * (3 - sz))" by (simp only: power_add)
    also have "8 * sz + 8 * (3 - sz) = 24" using True by simp
    finally show ?thesis by simp
  next
    case False
    have "2 ^ (8 * sz) = (2 :: int) ^ (24 + 8 * (sz - 3))"
      using False by (intro arg_cong [where f = "\<lambda>k. 2 ^ k"]) simp
    also have "\<dots> = 2 * (2 ^ 23 * 2 ^ (8 * (sz - 3)))" by (simp add: power_add)
    finally have "x < 2 ^ 23 * 2 ^ (8 * (sz - 3))" using hi by simp
    then have "x div 2 ^ (8 * (sz - 3)) < 2 ^ 23" by (intro div_less_int) simp_all
    then show ?thesis using False by (simp add: m_def drop_bit_eq_div)
  qed
  have ax: "\<bar>x\<bar> = x" using x by simp
  have e: "compact_encode x = push_bit 24 (word_of_nat sz) OR word_of_int m OR 0"
    unfolding compact_encode_def Let_def ax sz_def [symmetric] m_def using x by simp
  have d: "(if sz \<le> 3 then drop_bit (8 * (3 - sz)) m else push_bit (8 * (sz - 3)) m)
         = (if sz \<le> 3 then x else x div 2 ^ (8 * (sz - 3)) * 2 ^ (8 * (sz - 3)))"
    by (simp add: m_def drop_bit_eq_div push_bit_eq_mult)
  have "compact_decode (compact_encode x)
        = (if sz \<le> 3 then x else x div 2 ^ (8 * (sz - 3)) * 2 ^ (8 * (sz - 3)))"
    by (simp only: e compact_decode_word [OF sz(3) m0 m1] d)
  then show ?thesis by (simp only: sz_def)
qed

lemma compact_round_mono:
  assumes "0 < x" "x \<le> y" "y < 2 ^ 236"
  shows "compact_decode (compact_encode x) \<le> compact_decode (compact_encode y)"
proof -
  from assms have x: "0 < x" "x < 2 ^ 236" and y: "0 < y" "y < 2 ^ 236" by simp_all
  define sz where "sz = num_bytes (2 * x)"
  define k where "k = num_bytes (2 * y)"
  have nk: "sz \<le> k" using assms unfolding sz_def k_def by (intro num_bytes_mono) simp_all
  have dx: "compact_decode (compact_encode x) =
     (if sz \<le> 3 then x else x div 2 ^ (8 * (sz - 3)) * 2 ^ (8 * (sz - 3)))"
    unfolding sz_def by (rule decode_encode [OF x])
  have dy: "compact_decode (compact_encode y) =
     (if k \<le> 3 then y else y div 2 ^ (8 * (k - 3)) * 2 ^ (8 * (k - 3)))"
    unfolding k_def by (rule decode_encode [OF y])
  have xle: "compact_decode (compact_encode x) \<le> x"
    unfolding dx by (simp add: div_mult_le_int)
  show ?thesis
  proof (cases "k \<le> 3")
    case True
    then show ?thesis using xle assms(2) by (simp add: dy)
  next
    case False
    show ?thesis
    proof (cases "sz = k")
      case True
      have "x div 2 ^ (8 * (k - 3)) \<le> y div 2 ^ (8 * (k - 3))"
        using assms(2) by (intro zdiv_mono1) simp_all
      then have "x div 2 ^ (8 * (k - 3)) * 2 ^ (8 * (k - 3)) \<le> y div 2 ^ (8 * (k - 3)) * 2 ^ (8 * (k - 3))"
        by (intro mult_right_mono) simp_all
      then show ?thesis using False True by (simp add: dx dy)
    next
      case neq: False
      with nk have lt: "sz \<le> k - 1" by simp
      from x have px: "0 < 2 * x" by simp
      from y have py: "0 < 2 * y" by simp
      have "2 * x < 256 ^ sz" using num_bytes_bounds [OF px] by (simp add: sz_def)
      also have "(256 :: int) ^ sz \<le> 256 ^ (k - 1)" using lt by (intro power_increasing) simp_all
      finally have a: "2 * x < 256 ^ (k - 1)" .
      have k1: "k - 1 = Suc (k - 3) + 1" using False by simp
      have "(256 :: int) ^ (k - 1) = 2 * (2 ^ 7 * 2 ^ 8 * 2 ^ (8 * (k - 3)))"
        unfolding k1 using power_mult [of "2 :: int" 8 "k - 3"] by simp
      with a have b: "x < 2 ^ 15 * 2 ^ (8 * (k - 3))" by simp
      have "(256 :: int) ^ (k - 1) \<le> 2 * y" using num_bytes_bounds [OF py] by (simp add: k_def)
      then have c: "2 ^ 15 * 2 ^ (8 * (k - 3)) \<le> y"
        unfolding k1 using power_mult [of "2 :: int" 8 "k - 3"] by simp
      have "(2 ^ 15 * 2 ^ (8 * (k - 3))) div 2 ^ (8 * (k - 3)) \<le> y div 2 ^ (8 * (k - 3))"
        using c by (intro zdiv_mono1) simp_all
      then have "2 ^ 15 \<le> y div 2 ^ (8 * (k - 3))" by simp
      then have "2 ^ 15 * 2 ^ (8 * (k - 3)) \<le> y div 2 ^ (8 * (k - 3)) * 2 ^ (8 * (k - 3))"
        by (intro mult_right_mono) simp_all
      with b xle have "compact_decode (compact_encode x)
                       \<le> y div 2 ^ (8 * (k - 3)) * 2 ^ (8 * (k - 3))"
        by linarith
      also have "\<dots> = compact_decode (compact_encode y)" using False by (simp only: dy if_False)
      finally show ?thesis .
    qed
  qed
qed

text \<open>The target before its encoding: in a fixed context, and unless the previous
  target is 1, a larger effective spacing gives the same target, or a larger one
  with both targets positive and up to the limit.\<close>

lemma next_target_mono:
  assumes ctx: "nHeight l1 = nHeight l2" "prior_bits l1 f = prior_bits l2 f"
    and sp: "actual_spacing l1 f = Some d1" "actual_spacing l2 f = Some d2"
    and le: "effective_spacing d1 \<le> effective_spacing d2"
    and T: "SetCompact e (prior_bits l1 f) \<noteq> 1"
  shows "next_target e l1 f = next_target e l2 f
       \<or> (0 < next_target e l1 f \<and> next_target e l1 f \<le> next_target e l2 f
          \<and> next_target e l2 f \<le> (if f then GetPOSLimit e (nHeight l1)
                                      else bnProofOfWorkLimit e))"
proof -
  from next_target_retarget [OF sp(1), of e] obtain x1 :: int64 where
    x1: "sint x1 = d1" "- (2 ^ 32) < sint x1" "sint x1 < 2 ^ 32"
    and n1: "next_target e l1 f =
           retarget (if f then GetPOSLimit e (nHeight l1) else bnProofOfWorkLimit e)
                    (SetCompact e (prior_bits l1 f)) x1"
    by blast
  from next_target_retarget [OF sp(2), of e] obtain x2 :: int64 where
    x2: "sint x2 = d2" "- (2 ^ 32) < sint x2" "sint x2 < 2 ^ 32"
    and n2: "next_target e l2 f =
           retarget (if f then GetPOSLimit e (nHeight l2) else bnProofOfWorkLimit e)
                    (SetCompact e (prior_bits l2 f)) x2"
    by blast
  from le have le': "effective_spacing (sint x1) \<le> effective_spacing (sint x2)"
    by (simp add: x1 x2)
  show ?thesis
    unfolding n1 n2 ctx [symmetric]
    by (rule retarget_mono [OF x1(2,3) x2(2,3) le' T])
qed

text \<open>
  C6 (amended). For a fixed context (the height, which fixes the target limit, and the
  compact target of the previous block of the kind), the target that
  \<open>GetNextTargetRequired\<close> returns, read back from the returned compact value, is
  monotone non-decreasing in the spacing of the two previous blocks of the kind (a
  negative time difference counts as \<open>nTargetSpacing\<close>), provided the previous target is
  not 1. The compact encoding, which is not among the sources, is taken to be
  order-preserving up to the target limit.
\<close>

theorem GetNextTargetRequired_monotone:
  assumes ctx: "nHeight l1 = nHeight l2" "prior_bits l1 f = prior_bits l2 f"
    and sp: "actual_spacing l1 f = Some d1" "actual_spacing l2 f = Some d2"
    and le: "effective_spacing d1 \<le> effective_spacing d2"
    and T: "SetCompact e (prior_bits l1 f) \<noteq> 1"
    and codec: "compact_monotone e (if f then GetPOSLimit e (nHeight l1)
                                      else bnProofOfWorkLimit e)"
  shows "SetCompact e (GetNextTargetRequired e l1 f)
         \<le> SetCompact e (GetNextTargetRequired e l2 f)"
proof -
  from next_target_mono [OF ctx sp le T]
  consider (same) "next_target e l1 f = next_target e l2 f"
    | (less) "0 < next_target e l1 f" "next_target e l1 f \<le> next_target e l2 f"
        "next_target e l2 f \<le> (if f then GetPOSLimit e (nHeight l1) else bnProofOfWorkLimit e)"
    by blast
  then show ?thesis
  proof cases
    case same
    then show ?thesis by (simp add: GetNextTargetRequired_def)
  next
    case less
    with codec show ?thesis
      unfolding compact_monotone_def GetNextTargetRequired_def by blast
  qed
qed

lemma example_chain_context:
  "nHeight (example_chain bits t1 t2) = 2"
  "prior_bits (example_chain bits t1 t2) False = bits"
  "actual_spacing (example_chain bits t1 t2) False = Some (uint t2 - uint t1)"
  by (simp_all add: example_chain_def example_index_def prior_bits_def actual_spacing_def
      GetLastBlockIndex.simps)

lemma example_chain_target:
  "next_target example_env (example_chain bits t1 t2) False
   = retarget (2 ^ 236 - 1) (compact_decode bits) (ucast t2 - ucast t1)"
  by (simp add: next_target_def example_chain_def example_index_def GetLastBlockIndex.simps
      example_env_def bnProofOfWorkLimit_def idx_GetBlockTime_def)

lemma example_targets:
  "compact_decode 0x1d00ffff = 0xffff * 2 ^ 208"
  "compact_decode 0x01010000 = 1"
  by (simp_all add: compact_decode_def)

lemma example_compact_monotone:
  "compact_monotone example_env (bnProofOfWorkLimit example_env)"
proof -
  have l: "bnProofOfWorkLimit example_env = 2 ^ 236 - 1"
    by (simp add: bnProofOfWorkLimit_def example_env_def)
  have c: "SetCompact example_env = compact_decode" "GetCompact example_env = compact_encode"
    by (simp_all add: example_env_def)
  show ?thesis
    unfolding compact_monotone_def l c
  proof (intro allI impI)
    fix x y :: int
    assume "0 < x \<and> x \<le> y \<and> y \<le> 2 ^ 236 - 1"
    then have "0 < x" "x \<le> y" "y < 2 ^ 236" by simp_all
    then show "compact_decode (compact_encode x) \<le> compact_decode (compact_encode y)"
      by (rule compact_round_mono)
  qed
qed

theorem GetNextTargetRequired_monotone_witness:
  "nHeight (example_chain 0x1d00ffff 1500000100 1500000160)
     = nHeight (example_chain 0x1d00ffff 1500000100 1500000200)
   \<and> prior_bits (example_chain 0x1d00ffff 1500000100 1500000160) False
     = prior_bits (example_chain 0x1d00ffff 1500000100 1500000200) False
   \<and> actual_spacing (example_chain 0x1d00ffff 1500000100 1500000160) False = Some 60
   \<and> actual_spacing (example_chain 0x1d00ffff 1500000100 1500000200) False = Some 100
   \<and> effective_spacing 60 \<le> effective_spacing 100
   \<and> SetCompact example_env (prior_bits (example_chain 0x1d00ffff 1500000100 1500000160) False) \<noteq> 1
   \<and> compact_monotone example_env (bnProofOfWorkLimit example_env)
   \<and> SetCompact example_env
       (GetNextTargetRequired example_env (example_chain 0x1d00ffff 1500000100 1500000160) False)
     \<le> SetCompact example_env
       (GetNextTargetRequired example_env (example_chain 0x1d00ffff 1500000100 1500000200) False)"
proof -
  let ?c1 = "example_chain 0x1d00ffff 1500000100 1500000160"
  let ?c2 = "example_chain 0x1d00ffff 1500000100 1500000200"
  have h: "nHeight ?c1 = nHeight ?c2" "prior_bits ?c1 False = prior_bits ?c2 False"
    by (simp_all add: example_chain_context)
  have s: "actual_spacing ?c1 False = Some 60" "actual_spacing ?c2 False = Some 100"
    by (simp_all add: example_chain_context)
  have le: "effective_spacing 60 \<le> effective_spacing 100"
    by (simp add: effective_spacing_def)
  have T: "SetCompact example_env (prior_bits ?c1 False) \<noteq> 1"
    by (simp add: example_chain_context example_env_def example_targets)
  have m: "compact_monotone example_env
             (if False then GetPOSLimit example_env (nHeight ?c1)
              else bnProofOfWorkLimit example_env)"
    using example_compact_monotone by simp
  from GetNextTargetRequired_monotone [OF h s le T m] h s le T example_compact_monotone
  show ?thesis by simp
qed

text \<open>
  C6 as stated fails for a previous target of 1: the spacing 0 gives the quotient 0,
  which is replaced by the target limit, and the function returns \<open>0x1e0fffff\<close>; the
  larger spacing 79 gives the target 1, and the function returns \<open>0x01010000\<close>.
\<close>

theorem GetNextTargetRequired_counterexample:
  "prior_bits (example_chain 0x01010000 1500000100 1500000100) False
     = prior_bits (example_chain 0x01010000 1500000100 1500000179) False
   \<and> SetCompact example_env (prior_bits (example_chain 0x01010000 1500000100 1500000100) False) = 1
   \<and> actual_spacing (example_chain 0x01010000 1500000100 1500000100) False = Some 0
   \<and> actual_spacing (example_chain 0x01010000 1500000100 1500000179) False = Some 79
   \<and> GetNextTargetRequired example_env (example_chain 0x01010000 1500000100 1500000100) False
     = 0x1e0fffff
   \<and> GetNextTargetRequired example_env (example_chain 0x01010000 1500000100 1500000179) False
     = 0x01010000
   \<and> SetCompact example_env
       (GetNextTargetRequired example_env (example_chain 0x01010000 1500000100 1500000179) False)
     < SetCompact example_env
       (GetNextTargetRequired example_env (example_chain 0x01010000 1500000100 1500000100) False)"
proof -
  have iv: "sdiv64 nTargetTimespan (ucast nTargetSpacing) = 15"
    by (simp add: sdiv64_def nTargetTimespan_def nTargetSpacing_def)
  have c: "retarget (2 ^ 236 - 1) 1 (ucast (1500000100 :: uint32) - ucast (1500000100 :: uint32))
           = 2 ^ 236 - 1"
    unfolding retarget_def Let_def iv by (simp add: nTargetSpacing_def word_sless_alt)
  have d: "retarget (2 ^ 236 - 1) 1 (ucast (1500000179 :: uint32) - ucast (1500000100 :: uint32))
           = 1"
    unfolding retarget_def Let_def iv by (simp add: nTargetSpacing_def word_sless_alt)
  have gc: "GetCompact example_env = compact_encode" "SetCompact example_env = compact_decode"
    by (simp_all add: example_env_def)
  have nb: "num_bytes (2 * \<bar>2 ^ 236 - 1\<bar>) = 30" "num_bytes (2 * \<bar>1\<bar>) = 1"
    by (simp_all add: num_bytes.simps)
  have enc: "compact_encode (2 ^ 236 - 1) = 0x1e0fffff" "compact_encode 1 = 0x01010000"
    unfolding compact_encode_def Let_def nb by simp_all
  have dec: "compact_decode 0x1e0fffff = 0xfffff * 2 ^ 216" "compact_decode 0x01010000 = 1"
    by (simp_all add: compact_decode_def)
  have r0: "GetNextTargetRequired example_env (example_chain 0x01010000 1500000100 1500000100) False
            = 0x1e0fffff"
    unfolding GetNextTargetRequired_def gc example_chain_target dec c by (rule enc)
  have r79: "GetNextTargetRequired example_env (example_chain 0x01010000 1500000100 1500000179) False
            = 0x01010000"
    unfolding GetNextTargetRequired_def gc example_chain_target dec d by (rule enc)
  show ?thesis
    unfolding r0 r79 gc dec by (simp add: example_chain_context dec)
qed

subsection \<open>GetBlockTrust and AddToBlockIndex\<close>

lemma GetBlockTrust_value:
  "uint (GetBlockTrust e pindex) =
     (if SetCompact e (idx_nBits pindex) \<le> 0 then 0
      else block_trust_spec (SetCompact e (idx_nBits pindex)))"
proof (cases "SetCompact e (idx_nBits pindex) \<le> 0")
  case True
  then show ?thesis by (simp add: GetBlockTrust_def)
next
  case False
  let ?t = "SetCompact e (idx_nBits pindex)"
  from False have t: "0 < ?t + 1" "2 \<le> ?t + 1" by simp_all
  have q: "push_bit 256 1 sdiv (?t + 1) = (2 ^ 256 :: int) div (?t + 1)"
    using t by (simp add: sdiv_nonneg push_bit_eq_mult)
  have q0: "0 \<le> (2 ^ 256 :: int) div (?t + 1)"
    using t by (simp add: pos_imp_zdiv_nonneg_iff)
  have "(2 ^ 256 :: int) div (?t + 1) \<le> 2 ^ 256 div 2"
    using t by (intro zdiv_mono2) simp_all
  then have q1: "(2 ^ 256 :: int) div (?t + 1) < 2 ^ 256" by simp
  have u: "uint (word_of_int ((2 ^ 256 :: int) div (?t + 1)) :: uint256) = 2 ^ 256 div (?t + 1)"
    using q0 q1 by (simp add: uint_word_of_int take_bit_int_eq_self)
  have "GetBlockTrust e pindex = word_of_int ((2 ^ 256 :: int) div (?t + 1))"
    using False unfolding GetBlockTrust_def Let_def q by simp
  with False u show ?thesis
    by (simp add: block_trust_spec_def)
qed

lemma GetBlockTrust_bits:
  "idx_nBits p = idx_nBits q \<Longrightarrow> GetBlockTrust e p = GetBlockTrust e q"
  by (simp add: GetBlockTrust_def)


text \<open>The node that \<open>AddToBlockIndex\<close> creates, for any \<open>nBits\<close>.\<close>

lemma AddToBlockIndex_node:
  assumes new: "mapBlockIndex s (GetHash_block e b) = None"
    and node: "mapBlockIndex (snd (AddToBlockIndex e oc b nFileIn nBlockPosIn hashProofIn s))
                 (GetHash_block e b) = Some N"
  shows "pprev N = mapBlockIndex s (hashPrevBlock b)
       \<and> idx_nBits N = nBits b
       \<and> nChainTrust N = (case pprev N of None \<Rightarrow> 0 | Some P \<Rightarrow> nChainTrust P)
                          + GetBlockTrust e N
       \<and> uint (GetBlockTrust e N) =
           (if SetCompact e (nBits b) \<le> 0 then 0
            else block_trust_spec (SetCompact e (nBits b)))"
proof -
  obtain modifier generated where sm: "ComputeNextStakeModifier oc = Some (modifier, generated)"
    and ent: "SetStakeEntropyBit_ok oc"
    using new node
    by (cases "ComputeNextStakeModifier oc")
       (auto simp: AddToBlockIndex_def Let_def error_def split: if_splits)
  let ?new = "new_CBlockIndex nFileIn nBlockPosIn b"
  let ?prev = "mapBlockIndex s (hashPrevBlock b)"
  let ?trust = "(case ?prev of None \<Rightarrow> 0 | Some p \<Rightarrow> nChainTrust p) + GetBlockTrust e ?new"
  have N: "N = CBlockIndex ?prev
          (case ?prev of None \<Rightarrow> nHeight ?new | Some p \<Rightarrow> nHeight p + 1)
          (nFile ?new) (nBlockPos ?new) (idx_nBits ?new) (idx_nTime ?new) (isPoS ?new)
          (prevoutStake ?new) (nStakeTime ?new) modifier generated
          (GetStakeModifierChecksum oc) hashProofIn ?trust (nMint ?new) (nMoneySupply ?new)"
    using new node sm ent
    by (auto simp: AddToBlockIndex_def Let_def error_def split: if_splits)
  have bits: "idx_nBits N = nBits b" by (simp add: N new_CBlockIndex_def)
  have same: "GetBlockTrust e ?new = GetBlockTrust e N"
    by (rule GetBlockTrust_bits) (simp add: N)
  have "nChainTrust N = ?trust" by (simp add: N)
  then have trust: "nChainTrust N = (case pprev N of None \<Rightarrow> 0 | Some P \<Rightarrow> nChainTrust P)
                          + GetBlockTrust e N"
    unfolding same by (simp add: N)
  have prev: "pprev N = ?prev" by (simp add: N)
  from prev bits trust GetBlockTrust_value [of e N] show ?thesis
    by (simp only: bits)
qed

text \<open>
  The targets of the blocks that reach \<open>AddToBlockIndex\<close>. \<open>AcceptBlock\<close> calls it only
  for a block whose \<open>nBits\<close> is the value of \<open>GetNextTargetRequired\<close>, and that value
  encodes a target that is positive and at most the target limit (the genesis block,
  the other caller's, has the encoding of the proof-of-work limit).
\<close>

lemma retarget_range:
  assumes "0 < L"
  shows "0 < retarget L T d \<and> retarget L T d \<le> L"
  using assms unfolding retarget_def Let_def by (simp split: if_splits)

lemma bnProofOfWorkLimit_positive: "0 < bnProofOfWorkLimit e"
  by (simp add: bnProofOfWorkLimit_def)

lemma next_target_range:
  assumes "0 < (if f then GetPOSLimit e (nHeight l) else bnProofOfWorkLimit e)"
  shows "0 < next_target e l f
       \<and> next_target e l f \<le> (if f then GetPOSLimit e (nHeight l) else bnProofOfWorkLimit e)"
proof -
  define L where "L = (if f then GetPOSLimit e (nHeight l) else bnProofOfWorkLimit e)"
  have L: "0 < L" using assms by (simp add: L_def)
  have "next_target e l f = L \<or> (\<exists>T d. next_target e l f = retarget L T d)"
    unfolding next_target_def Let_def L_def [symmetric]
    by (auto split: option.splits)
  with L retarget_range [OF L] show ?thesis
    unfolding L_def [symmetric] by auto
qed

lemma AcceptBlock_rules_target:
  assumes "AcceptBlock_rules e c w b pindexPrev = Inr r"
  shows "nBits b = GetNextTargetRequired e pindexPrev (IsProofOfStake b)"
proof (rule ccontr)
  assume n: "nBits b \<noteq> GetNextTargetRequired e pindexPrev (IsProofOfStake b)"
  have "\<exists>f. AcceptBlock_rules e c w b pindexPrev = Inl f"
    by (cases "IsProofOfWork b \<and> LAST_POW_BLOCK c <s nHeight pindexPrev + 1")
       (simp_all add: AcceptBlock_rules_def Let_def n)
  with assms show False by simp
qed

lemma AcceptBlock_rules_positive:
  assumes "AcceptBlock_rules e c w b pindexPrev = Inr r"
    and "IsProofOfStake b \<Longrightarrow> 0 < GetPOSLimit e (nHeight pindexPrev)"
  shows "\<exists>t. 0 < t \<and> nBits b = GetCompact e t"
proof -
  have "0 < (if IsProofOfStake b then GetPOSLimit e (nHeight pindexPrev)
             else bnProofOfWorkLimit e)"
    using assms(2) by (simp add: bnProofOfWorkLimit_positive)
  from next_target_range [OF this] AcceptBlock_rules_target [OF assms(1)]
  show ?thesis unfolding GetNextTargetRequired_def by blast
qed

text \<open>
  C1. The node \<open>N\<close> that \<open>AddToBlockIndex\<close> creates for a block has the entry of the
  block's \<open>hashPrevBlock\<close> as its predecessor \<open>P\<close>, and
  \<open>chainTrust(N) = chainTrust(P) + blockTrust(N)\<close> in the 256-bit unsigned arithmetic
  of the code (\<open>chainTrust(N) = blockTrust(N)\<close> without a predecessor), where
  \<open>blockTrust(N)\<close> is \<open>floor(2^256 / (target+1))\<close> for the compact-decoded target of
  \<open>N.nBits\<close>. The target is positive, as it is for every block that reaches
  \<open>AddToBlockIndex\<close>.
\<close>

theorem AddToBlockIndex_chain_trust:
  assumes new: "mapBlockIndex s (GetHash_block e b) = None"
    and node: "mapBlockIndex (snd (AddToBlockIndex e oc b nFileIn nBlockPosIn hashProofIn s))
                 (GetHash_block e b) = Some N"
    and target: "0 < SetCompact e (nBits b)"
  shows "pprev N = mapBlockIndex s (hashPrevBlock b)
       \<and> idx_nBits N = nBits b
       \<and> nChainTrust N = (case pprev N of None \<Rightarrow> 0 | Some P \<Rightarrow> nChainTrust P)
                          + GetBlockTrust e N
       \<and> uint (GetBlockTrust e N) = block_trust_spec (SetCompact e (idx_nBits N))"
proof -
  note n = AddToBlockIndex_node [OF new node]
  from n have bits: "idx_nBits N = nBits b" by simp
  from n target have "uint (GetBlockTrust e N) = block_trust_spec (SetCompact e (nBits b))"
    by simp
  with n show ?thesis by (simp only: bits simp_thms)
qed

lemma example_decode:
  "compact_decode 0x1e0fffff = 0xfffff * 2 ^ 216"
  by (simp add: compact_decode_def)

lemma example_pow_block_trust:
  "GetBlockTrust example_env (new_CBlockIndex 1 8 example_pow_block) = 1048577"
  by (simp add: GetBlockTrust_def new_CBlockIndex_def example_pow_block_def example_env_def
      example_decode)

lemma example_add:
  "mapBlockIndex (snd (AddToBlockIndex example_env ok_outcomes example_pow_block 1 8 0 example_state))
     (GetHash_block example_env example_pow_block) = Some example_node"
proof -
  have h: "GetHash_block example_env example_pow_block = 7"
    "hashPrevBlock example_pow_block = 0"
    by (simp_all add: example_env_def example_pow_block_def)
  have n: "new_CBlockIndex 1 8 example_pow_block
           = CBlockIndex None 0 1 8 0x1e0fffff 1500000000 False null_outpoint 0 0 False 0 0 0 0 0"
    by (simp add: new_CBlockIndex_def example_pow_block_def GetProofOfStake_def
        IsProofOfStake_def null_outpoint_def)
  show ?thesis
    unfolding AddToBlockIndex_def Let_def h example_pow_block_trust
    by (simp add: n example_state_def empty_state_def ok_outcomes_def example_node_def
        example_genesis_def)
qed

theorem AddToBlockIndex_chain_trust_witness:
  "mapBlockIndex example_state (GetHash_block example_env example_pow_block) = None
   \<and> mapBlockIndex (snd (AddToBlockIndex example_env ok_outcomes example_pow_block 1 8 0 example_state))
         (GetHash_block example_env example_pow_block) = Some example_node
   \<and> 0 < SetCompact example_env (nBits example_pow_block)
   \<and> pprev example_node = Some example_genesis
   \<and> nChainTrust example_node = nChainTrust example_genesis + GetBlockTrust example_env example_node
   \<and> uint (GetBlockTrust example_env example_node)
       = block_trust_spec (SetCompact example_env (idx_nBits example_node))
   \<and> uint (GetBlockTrust example_env example_node) = 1048577
   \<and> uint (nChainTrust example_node) = 2097154"
proof -
  have new: "mapBlockIndex example_state (GetHash_block example_env example_pow_block) = None"
    by (simp add: example_state_def empty_state_def example_env_def example_pow_block_def)
  have pos: "0 < SetCompact example_env (nBits example_pow_block)"
    by (simp add: example_env_def example_pow_block_def example_decode)
  have prev: "pprev example_node = Some example_genesis" by (simp add: example_node_def)
  have v: "uint (GetBlockTrust example_env example_node) = 1048577"
    "uint (nChainTrust example_node) = 2097154"
    by (simp_all add: GetBlockTrust_def example_node_def example_env_def example_decode)
  have bt: "block_trust_spec (SetCompact example_env (idx_nBits example_node)) = 1048577"
    by (simp add: block_trust_spec_def example_node_def example_env_def example_decode)
  from AddToBlockIndex_chain_trust [OF new example_add pos] new example_add pos prev v bt
  show ?thesis by simp
qed

subsection \<open>ProcessNewBlock and the duplicate-stake rule\<close>

lemma AddToBlockIndex_stake_seen:
  assumes "fst (AddToBlockIndex e oc b nFileIn nBlockPosIn hashProofIn s) = Inr ()"
    and "IsProofOfStake b"
  shows "GetProofOfStake b \<in> setStakeSeen (snd (AddToBlockIndex e oc b nFileIn nBlockPosIn hashProofIn s))"
  using assms
  by (auto simp: AddToBlockIndex_def Let_def error_def new_CBlockIndex_def
           split: if_splits option.splits)

lemma AcceptBlock_AddToBlockIndex:
  assumes "fst (AcceptBlock e c w b s) = Inr ()"
  shows "\<exists>nf np hp. fst (AddToBlockIndex e (outcomes w b) b nf np hp s) = Inr ()
          \<and> snd (AcceptBlock e c w b s) = snd (AddToBlockIndex e (outcomes w b) b nf np hp s)"
proof -
  from assms obtain pindexPrev pos where
    pos: "AcceptBlock_rules e c w b pindexPrev = Inr pos"
    and prev: "mapBlockIndex s (hashPrevBlock b) = Some pindexPrev"
    and rest: "\<not> (fTestNet e \<and> CURRENT_VERSION c <s nVersion b)"
      "mapBlockIndex s (GetHash_block e b) = None"
    by (auto simp: AcceptBlock_def DoS_def error_def split: if_splits option.splits sum.splits)
  let ?r = "AddToBlockIndex e (outcomes w b) b (fst pos) (fst (snd pos)) (snd (snd pos)) s"
  have acc: "AcceptBlock e c w b s
             = ((case fst ?r of Inl f \<Rightarrow> error ''AddToBlockIndex failed'' | Inr u \<Rightarrow> Inr ()), snd ?r)"
    using pos prev rest by (auto simp add: AcceptBlock_def Let_def)
  with assms have "fst ?r = Inr ()"
    by (cases "fst ?r") (simp_all add: error_def)
  with acc show ?thesis by auto
qed

text \<open>
  C4 (amended). Outside the initial block download, \<open>ProcessNewBlock\<close> rejects (and
  leaves the state as it is) a proof-of-stake block whose pair
  \<open>(prevoutStake, stakeTime)\<close> is in the seen-stake set, provided no orphan lists the
  block as its parent and the block is not wanted by a pending sync-checkpoint. A
  proof-of-stake block that \<open>AcceptBlock\<close> accepts leaves its pair in the seen-stake
  set. During the initial block download the rule is off.
\<close>

theorem ProcessNewBlock_duplicate_stake:
  "(\<not> IsInitialBlockDownload w \<and> IsProofOfStake b \<and> GetProofOfStake b \<in> setStakeSeen s
      \<and> GetHash_block e b \<notin> fst ` set (mapOrphanBlocksByPrev s)
      \<and> \<not> WantedByPendingSyncCheckpoint w (GetHash_block e b)
    \<longrightarrow> (\<exists>f. ProcessNewBlock e c w b s = (Inl f, s)))
   \<and> (IsProofOfStake b \<and> fst (AcceptBlock e c w b s) = Inr ()
    \<longrightarrow> GetProofOfStake b \<in> setStakeSeen (snd (AcceptBlock e c w b s)))"
proof (intro conjI impI)
  assume "\<not> IsInitialBlockDownload w \<and> IsProofOfStake b \<and> GetProofOfStake b \<in> setStakeSeen s
      \<and> GetHash_block e b \<notin> fst ` set (mapOrphanBlocksByPrev s)
      \<and> \<not> WantedByPendingSyncCheckpoint w (GetHash_block e b)"
  then show "\<exists>f. ProcessNewBlock e c w b s = (Inl f, s)"
    by (simp add: ProcessNewBlock_def Let_def error_def)
next
  assume a: "IsProofOfStake b \<and> fst (AcceptBlock e c w b s) = Inr ()"
  then obtain nf np hp where
    "fst (AddToBlockIndex e (outcomes w b) b nf np hp s) = Inr ()"
    "snd (AcceptBlock e c w b s) = snd (AddToBlockIndex e (outcomes w b) b nf np hp s)"
    using AcceptBlock_AddToBlockIndex by blast
  with a show "GetProofOfStake b \<in> setStakeSeen (snd (AcceptBlock e c w b s))"
    by (simp add: AddToBlockIndex_stake_seen)
qed

lemma stake_block_kind:
  "IsProofOfStake (stake_block k)" "\<not> IsProofOfWork (stake_block k)"
  "GetProofOfStake (stake_block k) = (\<lparr> hash = 9, n = 0 \<rparr>, 1500000000)"
  "GetHash_block example_env (stake_block k) = ucast k"
  by (simp_all add: IsProofOfWork_def IsProofOfStake_def GetProofOfStake_def stake_block_def
      IsCoinStake_def example_coinstake_def IsEmpty_def word_sless_alt example_env_def)

lemma stake_block_txs:
  "CheckTransaction example_env example_params stake_coinbase = Inr ()"
  "CheckTransaction example_env example_params example_coinstake = Inr ()"
  by (simp_all add: CheckTransaction_def example_env_def example_params_def stake_coinbase_def
      example_coinstake_def null_outpoint_def IsCoinBase_def IsCoinStake_def IsNull_def
      IsEmpty_def MoneyRange_def word_sless_alt word_sle_eq)

lemma stake_block_signature: "CheckBlockSignature example_env (stake_block k)"
  by (simp add: CheckBlockSignature_def stake_block_kind)
     (simp add: stake_block_def example_coinstake_def example_env_def)

lemma stake_block_check:
  "CheckBlock example_env example_params True True True (stake_block k) = Inr ()"
proof -
  have txs: "CheckBlock_transactions example_env example_params (stake_block k) (vtx (stake_block k))
             = Inr ()"
    by (simp add: stake_block_def stake_block_txs GetBlockTime_def word_sless_alt)
       (simp add: stake_coinbase_def example_coinstake_def)
  have sigops: "(\<Sum>tx\<leftarrow>vtx (stake_block k). GetLegacySigOpCount example_env tx) = 0"
    by (simp add: stake_block_def GetLegacySigOpCount_def example_env_def)
  have cb: "IsCoinBase stake_coinbase" "\<not> IsCoinBase example_coinstake"
    "IsCoinStake example_coinstake"
    by (simp_all add: IsCoinBase_def IsCoinStake_def stake_coinbase_def example_coinstake_def
        null_outpoint_def IsNull_def IsEmpty_def word_sless_alt)
  have stake: "CheckBlock_stake example_env True (stake_block k) = Inr ()"
    by (simp add: CheckBlock_stake_def stake_block_kind stake_block_signature)
       (simp add: stake_block_def cb stake_coinbase_def IsEmpty_def)
  have hashes: "map (GetHash_tx example_env) (vtx (stake_block k)) = [5794967296, 10089934592]"
    by (simp add: stake_block_def example_env_def stake_coinbase_def example_coinstake_def)
  show ?thesis
    unfolding CheckBlock_def stake txs sigops hashes
    by (simp add: stake_block_def cb FutureDrift_def GetBlockTime_def word_sless_alt)
       (simp add: example_env_def example_params_def stake_coinbase_def)
qed

lemma example_limit_bits: "compact_encode (2 ^ 236 - 1) = 0x1e0fffff"
proof -
  have nb: "num_bytes (2 * \<bar>2 ^ 236 - 1\<bar>) = 30" by (simp add: num_bytes.simps)
  show ?thesis unfolding compact_encode_def Let_def nb by simp
qed

lemma example_genesis_target:
  "GetNextTargetRequired example_env example_genesis True = 0x1e0fffff"
proof -
  have nt: "next_target example_env example_genesis True = 2 ^ 236 - 1"
    by (simp add: next_target_def GetLastBlockIndex.simps example_genesis_def example_env_def)
  have gc: "GetCompact example_env = compact_encode" by (simp add: example_env_def)
  show ?thesis unfolding GetNextTargetRequired_def nt gc by (rule example_limit_bits)
qed

lemma stake_block_rules:
  "AcceptBlock_rules example_env example_params (example_world\<lparr>IsInitialBlockDownload := ibd\<rparr>)
     (stake_block k) example_genesis = Inr (1, k, 77)"
proof -
  have t: "GetBlockTime (stake_block k) = 1500000000"
    "idx_GetBlockTime example_genesis = 1400000000"
    "nHeight example_genesis + 1 = 1"
    by (simp_all add: GetBlockTime_def idx_GetBlockTime_def stake_block_def example_genesis_def)
  have bits: "nBits (stake_block k) = 0x1e0fffff" by (simp add: stake_block_def)
  show ?thesis
    unfolding AcceptBlock_rules_def Let_def t bits example_genesis_target
    by (simp add: stake_block_kind example_world_def FutureDrift_def word_sle_eq word_sless_alt
        example_params_def t example_genesis_target)
       (simp add: stake_block_def stake_coinbase_def example_coinstake_def)
qed


lemma example_trust:
  "idx_nBits p = 0x1e0fffff \<Longrightarrow> GetBlockTrust example_env p = 1048577"
  by (simp add: GetBlockTrust_def example_env_def example_decode)

lemma stake_block_new:
  "new_CBlockIndex 1 k (stake_block k)
   = CBlockIndex None 0 1 k 0x1e0fffff 1500000000 True \<lparr> hash = 9, n = 0 \<rparr> 1500000000
       0 False 0 0 0 0 0"
  by (simp add: new_CBlockIndex_def stake_block_kind) (simp add: stake_block_def)

lemma accept_first:
  "AcceptBlock example_env example_params example_world (stake_block 11) example_state
   = (Inr (), seen_state)"
proof -
  have w: "example_world = example_world\<lparr>IsInitialBlockDownload := False\<rparr>"
    by (simp add: example_world_def)
  have rules: "AcceptBlock_rules example_env example_params example_world (stake_block 11)
                 example_genesis = Inr (1, 11, 77)"
    by (subst w) (rule stake_block_rules)
  have add: "AddToBlockIndex example_env ok_outcomes (stake_block 11) 1 11 77 example_state
             = (Inr (), seen_state)"
    unfolding AddToBlockIndex_def Let_def stake_block_kind stake_block_new
    by (simp add: example_state_def empty_state_def ok_outcomes_def seen_state_def
        stake_node_def example_genesis_def stake_block_def example_trust)
  have pre: "mapBlockIndex example_state (hashPrevBlock (stake_block 11)) = Some example_genesis"
    "mapBlockIndex example_state (GetHash_block example_env (stake_block 11)) = None"
    "\<not> fTestNet example_env" "outcomes example_world (stake_block 11) = ok_outcomes"
    by (simp_all add: example_state_def empty_state_def stake_block_kind example_env_def
        example_world_def stake_block_def)
  show ?thesis
    unfolding AcceptBlock_def Let_def by (simp add: pre rules add)
qed

lemma accept_second:
  "AcceptBlock example_env example_params (example_world\<lparr>IsInitialBlockDownload := True\<rparr>)
     (stake_block 12) seen_state
   = (Inr (), seen_state\<lparr> mapBlockIndex :=
        [0 \<mapsto> example_genesis, 11 \<mapsto> stake_node 11, 12 \<mapsto> stake_node 12] \<rparr>)"
proof -
  have add: "AddToBlockIndex example_env ok_outcomes (stake_block 12) 1 12 77 seen_state
             = (Inr (), seen_state\<lparr> mapBlockIndex :=
        [0 \<mapsto> example_genesis, 11 \<mapsto> stake_node 11, 12 \<mapsto> stake_node 12] \<rparr>)"
    unfolding AddToBlockIndex_def Let_def stake_block_kind stake_block_new
    by (simp add: seen_state_def example_state_def empty_state_def ok_outcomes_def
        stake_node_def example_genesis_def stake_block_def example_trust)
  have pre: "mapBlockIndex seen_state (hashPrevBlock (stake_block 12)) = Some example_genesis"
    "mapBlockIndex seen_state (GetHash_block example_env (stake_block 12)) = None"
    "\<not> fTestNet example_env"
    "outcomes example_world (stake_block 12) = ok_outcomes"
    by (simp_all add: seen_state_def example_state_def empty_state_def stake_block_kind
        example_env_def example_world_def stake_block_def)
  show ?thesis
    unfolding AcceptBlock_def Let_def by (simp add: pre stake_block_rules add)
qed

lemma seen_state_orphans:
  "mapOrphanBlocksByPrev seen_state = []" "mapOrphanBlocks seen_state = Map.empty"
  "setStakeSeen seen_state = {(\<lparr> hash = 9, n = 0 \<rparr>, 1500000000)}"
  by (simp_all add: seen_state_def example_state_def empty_state_def)

theorem ProcessNewBlock_duplicate_stake_witness:
  "\<not> IsInitialBlockDownload example_world \<and> IsProofOfStake (stake_block 12)
   \<and> GetProofOfStake (stake_block 12) \<in> setStakeSeen seen_state
   \<and> GetHash_block example_env (stake_block 12) \<notin> fst ` set (mapOrphanBlocksByPrev seen_state)
   \<and> \<not> WantedByPendingSyncCheckpoint example_world (GetHash_block example_env (stake_block 12))
   \<and> fst (ProcessNewBlock example_env example_params example_world (stake_block 12) seen_state)
       \<noteq> Inr ()
   \<and> snd (ProcessNewBlock example_env example_params example_world (stake_block 12) seen_state)
       = seen_state
   \<and> IsProofOfStake (stake_block 11)
   \<and> fst (AcceptBlock example_env example_params example_world (stake_block 11) example_state)
       = Inr ()
   \<and> GetProofOfStake (stake_block 11)
       \<in> setStakeSeen (snd (AcceptBlock example_env example_params example_world
                                (stake_block 11) example_state))"
proof -
  have a: "\<not> IsInitialBlockDownload example_world \<and> IsProofOfStake (stake_block 12)
      \<and> GetProofOfStake (stake_block 12) \<in> setStakeSeen seen_state
      \<and> GetHash_block example_env (stake_block 12) \<notin> fst ` set (mapOrphanBlocksByPrev seen_state)
      \<and> \<not> WantedByPendingSyncCheckpoint example_world (GetHash_block example_env (stake_block 12))"
    by (simp add: stake_block_kind seen_state_orphans) (simp add: example_world_def)
  have b: "IsProofOfStake (stake_block 11)
      \<and> fst (AcceptBlock example_env example_params example_world (stake_block 11) example_state)
          = Inr ()"
    by (simp add: stake_block_kind accept_first)
  from ProcessNewBlock_duplicate_stake [of example_world "stake_block 12" seen_state example_env
      example_params] a
  obtain f where "ProcessNewBlock example_env example_params example_world (stake_block 12) seen_state
                  = (Inl f, seen_state)"
    by blast
  moreover from ProcessNewBlock_duplicate_stake [of example_world "stake_block 11" example_state
      example_env example_params] b
  have "GetProofOfStake (stake_block 11)
       \<in> setStakeSeen (snd (AcceptBlock example_env example_params example_world
                                (stake_block 11) example_state))"
    by blast
  ultimately show ?thesis using a b by simp
qed

text \<open>
  C4 as stated fails during the initial block download, when the rule is off: with the
  first block of the stake in the index, a second block that spends the same stake at
  the same time is accepted, and the index holds two nodes with one pair.
\<close>

theorem ProcessNewBlock_duplicate_stake_counterexample:
  "IsProofOfStake (stake_block 12)
   \<and> GetProofOfStake (stake_block 12) \<in> setStakeSeen seen_state
   \<and> GetHash_block example_env (stake_block 12) \<notin> fst ` set (mapOrphanBlocksByPrev seen_state)
   \<and> \<not> WantedByPendingSyncCheckpoint (example_world\<lparr>IsInitialBlockDownload := True\<rparr>)
         (GetHash_block example_env (stake_block 12))
   \<and> ProcessNewBlock example_env example_params (example_world\<lparr>IsInitialBlockDownload := True\<rparr>)
         (stake_block 12) seen_state
       = (Inr (), seen_state\<lparr> mapBlockIndex :=
            [0 \<mapsto> example_genesis, 11 \<mapsto> stake_node 11, 12 \<mapsto> stake_node 12] \<rparr>)
   \<and> prevoutStake (stake_node 11) = prevoutStake (stake_node 12)
   \<and> nStakeTime (stake_node 11) = nStakeTime (stake_node 12)"
proof -
  let ?w = "example_world\<lparr>IsInitialBlockDownload := True\<rparr>"
  let ?s2 = "seen_state\<lparr> mapBlockIndex :=
            [0 \<mapsto> example_genesis, 11 \<mapsto> stake_node 11, 12 \<mapsto> stake_node 12] \<rparr>"
  have pre: "mapBlockIndex seen_state 12 = None"
    "mapBlockIndex seen_state (hashPrevBlock (stake_block 12)) \<noteq> None"
    "IsInitialBlockDownload ?w" "GetLastSyncCheckpoint ?w = None"
    "\<not> WantedByPendingSyncCheckpoint ?w 12"
    by (simp_all add: seen_state_def example_state_def empty_state_def
        example_world_def stake_block_def)
  have q: "ProcessNewBlock_queue example_env example_params ?w [12] ?s2 = ?s2"
    by (simp add: ProcessNewBlock_queue.simps seen_state_orphans Let_def)
  have run: "ProcessNewBlock example_env example_params ?w (stake_block 12) seen_state
             = (Inr (), ?s2)"
    unfolding ProcessNewBlock_def Let_def
    by (simp add: pre seen_state_orphans stake_block_check accepted_def accept_second
        stake_block_kind q)
  show ?thesis
    using run pre(5) by (simp add: stake_block_kind seen_state_orphans stake_node_def)
qed

subsection \<open>ConnectBlock and the masternode payment\<close>

lemma with_money_fields [simp]:
  "nHeight (with_money pindex m s) = nHeight pindex"
  "idx_nTime (with_money pindex m s) = idx_nTime pindex"
  "pprev (with_money pindex m s) = pprev pindex"
  by (simp_all add: with_money_def)

lemma ConnectBlock_payee_with_money:
  "ConnectBlock_payee c v (with_money pindex m s) postponedBlocks made payee
   = ConnectBlock_payee c v pindex postponedBlocks made payee"
  by (simp add: ConnectBlock_payee_def idx_GetBlockTime_def)

lemma ConnectBlock_payments_with_money:
  "ConnectBlock_payments c v b (with_money pindex m s) postponedBlocks reward
   = ConnectBlock_payments c v b pindex postponedBlocks reward"
  by (simp add: ConnectBlock_payments_def Let_def ConnectBlock_payee_with_money)

lemma mn_check_reachedD:
  assumes "mn_check_reached e c v b pindex fJustCheck = Some reward"
  obtains nFees nValueIn nValueOut nStakeReward nCoinAge where
    "accepted (CheckBlock e c (\<not> fJustCheck) (\<not> fJustCheck) False b)"
    "IsProofOfStake b" "\<not> cb_IsInitialBlockDownload v"
    "CalculateBlockAmounts v = Some (nFees, nValueIn, nValueOut, nStakeReward)"
    "GetCoinAge v = Some nCoinAge"
    "reward = GetProofOfStakeReward c nCoinAge nFees (nHeight pindex)"
    "(case pprev pindex of None \<Rightarrow> 0 | Some p \<Rightarrow> nMoneySupply p) \<noteq> 0"
    "\<not> (17901 <s nHeight pindex \<and> reward <s nStakeReward)"
  using assms
  by (auto simp: mn_check_reached_def Let_def split: if_splits option.splits prod.splits)

lemma ConnectBlock_reached:
  assumes "mn_check_reached e c v b pindex fJustCheck = Some reward"
  shows "fst (ConnectBlock e c v b pindex fJustCheck reorganize postponedBlocks) =
     (case ConnectBlock_payments c v b pindex postponedBlocks reward of
        Inl f \<Rightarrow> Inl f
      | Inr u \<Rightarrow>
          if \<not> WriteBlockIndex_ok v then error ''WriteBlockIndex for pindex failed''
          else if fJustCheck then Inr ()
          else if \<not> UpdateTxIndex_ok v then error ''UpdateTxIndex failed''
          else if pprev pindex \<noteq> None \<and> \<not> WriteBlockIndex_prev_ok v
          then error ''WriteBlockIndex failed''
          else Inr ())"
proof -
  from assms obtain nFees nValueIn nValueOut nStakeReward nCoinAge where r:
    "accepted (CheckBlock e c (\<not> fJustCheck) (\<not> fJustCheck) False b)"
    "IsProofOfStake b" "\<not> cb_IsInitialBlockDownload v"
    "CalculateBlockAmounts v = Some (nFees, nValueIn, nValueOut, nStakeReward)"
    "GetCoinAge v = Some nCoinAge"
    "reward = GetProofOfStakeReward c nCoinAge nFees (nHeight pindex)"
    "(case pprev pindex of None \<Rightarrow> 0 | Some p \<Rightarrow> nMoneySupply p) \<noteq> 0"
    "\<not> (17901 <s nHeight pindex \<and> reward <s nStakeReward)"
    by (rule mn_check_reachedD)
  have rewards: "ConnectBlock_rewards e c v b (with_money pindex m s) postponedBlocks nFees nStakeReward
        = ConnectBlock_payments c v b pindex postponedBlocks reward" for m s
    using r by (auto simp add: ConnectBlock_rewards_def IsProofOfWork_def Let_def
        ConnectBlock_payments_with_money)
  show ?thesis
    using r(1,3,4,7)
    by (auto simp add: ConnectBlock_def Let_def rewards split: sum.split)
qed

lemma mn_payment_absent_filter:
  "mn_payment_absent c b pindex reward \<Longrightarrow>
   filter (\<lambda>out. nValue out = GetMasternodePayment c (nHeight pindex) reward) (vout (vtx b ! 1)) = []"
  by (simp add: mn_payment_absent_def filter_empty_conv)

lemma ConnectBlock_payee_enforced:
  "payee_enforced c v pindex postponedBlocks \<Longrightarrow>
   \<exists>m. ConnectBlock_payee c v pindex postponedBlocks False blockPayee
        = DoS (sint (ucast (SPORK_4_PAYMENT_ENFORCEMENT_DOS_VALUE v) :: int32)) m"
  by (auto simp: ConnectBlock_payee_def payee_enforced_def Let_def DoS_def)

lemma ConnectBlock_payee_not_enforced:
  "\<not> payee_enforced c v pindex postponedBlocks \<Longrightarrow>
   ConnectBlock_payee c v pindex postponedBlocks made blockPayee = Inr ()"
  by (auto simp: ConnectBlock_payee_def payee_enforced_def Let_def)

lemma ConnectBlock_payee_message:
  "ConnectBlock_payee c v pindex postponedBlocks made blockPayee
   \<noteq> DoS k ''Stake does not pay masternode expected amount''"
  by (simp add: ConnectBlock_payee_def Let_def DoS_def)


lemma ConnectBlock_payments_absent:
  assumes "mn_payment_absent c b pindex reward"
  shows "ConnectBlock_payments c v b pindex postponedBlocks reward =
     (if ENFORCE_MN_PAYMENT_HEIGHT \<le>s nHeight pindex
      then DoS (sint (ucast (SPORK_4_PAYMENT_ENFORCEMENT_DOS_VALUE v) :: int32))
             ''Stake does not pay masternode expected amount''
      else
        (case ConnectBlock_payee c v pindex postponedBlocks False [] of
           Inl f \<Rightarrow> Inl f
         | Inr u \<Rightarrow>
             if \<not> list_ex (\<lambda>out. nValue out = GetDeveloperPayment c reward
                                   \<and> scriptPubKey out = GetDeveloperScript v) (vout (vtx b ! 1))
                \<and> ENFORCE_DEV_PAYMENT_HEIGHT \<le>s nHeight pindex
             then DoS (sint (ucast (SPORK_4_PAYMENT_ENFORCEMENT_DOS_VALUE v) :: int32))
                    ''Block fails to pay dev payment''
             else Inr ()))"
  unfolding ConnectBlock_payments_def Let_def mn_payment_absent_filter [OF assms]
  by simp

lemma below_mn_height_below_dev_height:
  "h <s ENFORCE_MN_PAYMENT_HEIGHT \<Longrightarrow> \<not> ENFORCE_DEV_PAYMENT_HEIGHT \<le>s h"
  by (simp add: ENFORCE_MN_PAYMENT_HEIGHT_def ENFORCE_DEV_PAYMENT_HEIGHT_def word_sless_alt
      word_sle_eq)

text \<open>
  C9 (amended). When \<open>ConnectBlock\<close> processes a proof-of-stake block outside the initial
  block download, the block has passed the earlier checks, and no coinstake output
  equals the required masternode payment: at a height of at least
  \<open>ENFORCE_MN_PAYMENT_HEIGHT\<close> the check of the amount rejects the block with the DoS
  score of spork 4; below that height the check of the amount does not reject the block
  (it only logs), and the block is then rejected, with the same score, exactly if the
  payee check is enforced (masternode list synced, block younger than
  \<open>MNPAYEE_MAX_BLOCK_AGE\<close>, spork 2 active, \<open>postponedBlocks\<close> below the threshold of
  spork 12); otherwise it is accepted as soon as the writes to the database succeed.
\<close>

theorem ConnectBlock_masternode_amount:
  assumes reached: "mn_check_reached e c v b pindex fJustCheck = Some reward"
    and absent: "mn_payment_absent c b pindex reward"
  shows "(ENFORCE_MN_PAYMENT_HEIGHT \<le>s nHeight pindex \<longrightarrow>
            fst (ConnectBlock e c v b pindex fJustCheck reorganize postponedBlocks)
            = DoS (sint (ucast (SPORK_4_PAYMENT_ENFORCEMENT_DOS_VALUE v) :: int32))
                ''Stake does not pay masternode expected amount'')
       \<and> (nHeight pindex <s ENFORCE_MN_PAYMENT_HEIGHT \<longrightarrow>
            (\<forall>k. fst (ConnectBlock e c v b pindex fJustCheck reorganize postponedBlocks)
                 \<noteq> DoS k ''Stake does not pay masternode expected amount'')
          \<and> (payee_enforced c v pindex postponedBlocks \<longrightarrow>
                (\<exists>m. fst (ConnectBlock e c v b pindex fJustCheck reorganize postponedBlocks)
                     = DoS (sint (ucast (SPORK_4_PAYMENT_ENFORCEMENT_DOS_VALUE v) :: int32)) m))
          \<and> (\<not> payee_enforced c v pindex postponedBlocks \<and> persisted v pindex fJustCheck \<longrightarrow>
                fst (ConnectBlock e c v b pindex fJustCheck reorganize postponedBlocks) = Inr ()))"
proof (intro conjI impI allI)
  note cb = ConnectBlock_reached [OF reached, of reorganize postponedBlocks]
  note pay = ConnectBlock_payments_absent [OF absent, of v postponedBlocks]
  {
    assume "ENFORCE_MN_PAYMENT_HEIGHT \<le>s nHeight pindex"
    then show "fst (ConnectBlock e c v b pindex fJustCheck reorganize postponedBlocks)
            = DoS (sint (ucast (SPORK_4_PAYMENT_ENFORCEMENT_DOS_VALUE v) :: int32))
                ''Stake does not pay masternode expected amount''"
      by (simp add: cb pay DoS_def)
  }
  {
    fix k
    assume low: "nHeight pindex <s ENFORCE_MN_PAYMENT_HEIGHT"
    then have h: "\<not> ENFORCE_MN_PAYMENT_HEIGHT \<le>s nHeight pindex"
      by (simp add: word_sless_alt word_sle_eq)
    note dev = below_mn_height_below_dev_height [OF low]
    show "fst (ConnectBlock e c v b pindex fJustCheck reorganize postponedBlocks)
          \<noteq> DoS k ''Stake does not pay masternode expected amount''"
    proof (cases "ConnectBlock_payee c v pindex postponedBlocks False []")
      case (Inl f)
      with ConnectBlock_payee_message [of c v pindex postponedBlocks False "[]" k]
      show ?thesis by (simp add: cb pay h)
    next
      case (Inr u)
      then show ?thesis by (simp add: cb pay h dev DoS_def error_def)
    qed
  }
  {
    assume low: "nHeight pindex <s ENFORCE_MN_PAYMENT_HEIGHT"
      and enf: "payee_enforced c v pindex postponedBlocks"
    from low have h: "\<not> ENFORCE_MN_PAYMENT_HEIGHT \<le>s nHeight pindex"
      by (simp add: word_sless_alt word_sle_eq)
    from ConnectBlock_payee_enforced [OF enf, of "[]"] obtain m where
      "ConnectBlock_payee c v pindex postponedBlocks False []
        = DoS (sint (ucast (SPORK_4_PAYMENT_ENFORCEMENT_DOS_VALUE v) :: int32)) m" by blast
    then show "\<exists>m. fst (ConnectBlock e c v b pindex fJustCheck reorganize postponedBlocks)
                     = DoS (sint (ucast (SPORK_4_PAYMENT_ENFORCEMENT_DOS_VALUE v) :: int32)) m"
      by (simp add: cb pay h DoS_def)
  }
  {
    assume low: "nHeight pindex <s ENFORCE_MN_PAYMENT_HEIGHT"
      and ok: "\<not> payee_enforced c v pindex postponedBlocks \<and> persisted v pindex fJustCheck"
    from low have h: "\<not> ENFORCE_MN_PAYMENT_HEIGHT \<le>s nHeight pindex"
      by (simp add: word_sless_alt word_sle_eq)
    note dev = below_mn_height_below_dev_height [OF low]
    from ok have payee: "ConnectBlock_payee c v pindex postponedBlocks False [] = Inr ()"
      by (simp add: ConnectBlock_payee_not_enforced)
    from ok show "fst (ConnectBlock e c v b pindex fJustCheck reorganize postponedBlocks) = Inr ()"
      by (auto simp add: cb pay h dev payee persisted_def)
  }
qed

lemma stake_block_check_flags:
  "CheckBlock example_env example_params fCheckPOW fCheckMerkleRoot fCheckSig (stake_block k)
   = Inr ()"
proof -
  have txs: "CheckBlock_transactions example_env example_params (stake_block k) (vtx (stake_block k))
             = Inr ()"
    by (simp add: stake_block_def stake_block_txs GetBlockTime_def word_sless_alt)
       (simp add: stake_coinbase_def example_coinstake_def)
  have sigops: "(\<Sum>tx\<leftarrow>vtx (stake_block k). GetLegacySigOpCount example_env tx) = 0"
    by (simp add: stake_block_def GetLegacySigOpCount_def example_env_def)
  have cb: "IsCoinBase stake_coinbase" "\<not> IsCoinBase example_coinstake"
    "IsCoinStake example_coinstake"
    by (simp_all add: IsCoinBase_def IsCoinStake_def stake_coinbase_def example_coinstake_def
        null_outpoint_def IsNull_def IsEmpty_def word_sless_alt)
  have stake: "CheckBlock_stake example_env fCheckSig (stake_block k) = Inr ()"
    by (simp add: CheckBlock_stake_def stake_block_kind stake_block_signature)
       (simp add: stake_block_def cb stake_coinbase_def IsEmpty_def)
  have hashes: "map (GetHash_tx example_env) (vtx (stake_block k)) = [5794967296, 10089934592]"
    by (simp add: stake_block_def example_env_def stake_coinbase_def example_coinstake_def)
  show ?thesis
    unfolding CheckBlock_def stake txs sigops hashes
    by (simp add: stake_block_def cb FutureDrift_def GetBlockTime_def word_sless_alt)
       (simp add: example_env_def example_params_def stake_coinbase_def)
qed

lemma example_rewards:
  "GetProofOfStakeReward example_params 5 0 1100000 = 1900000000"
  "GetProofOfStakeReward example_params 5 0 1099999 = 1900001000"
  by (simp_all add: GetProofOfStakeReward_def example_params_def g_RewardHalvingPeriod_def
      sdiv64_def word_sless_alt)

lemma example_mn_payment:
  "GetMasternodePayment example_params h 1900000000 = 1128600000"
  "GetMasternodePayment example_params h 1900001000 = 1128600594"
  by (simp_all add: GetMasternodePayment_def GetDeveloperPayment_def example_params_def sdiv64_def)

lemma stake_index_fields:
  "nHeight (stake_index h) = h"
  "pprev (stake_index h) = Some (with_money example_genesis 0 100000000)"
  "idx_GetBlockTime (stake_index h) = 1500000000"
  by (simp_all add: stake_index_def idx_GetBlockTime_def)

lemma example_reached:
  "mn_check_reached example_env example_params (example_view\<lparr>isMasternodeListSynced := synced\<rparr>)
     (stake_block 11) (stake_index 1100000) False = Some 1900000000"
  "mn_check_reached example_env example_params (example_view\<lparr>isMasternodeListSynced := synced\<rparr>)
     (stake_block 11) (stake_index 1099999) False = Some 1900001000"
  by (simp_all add: mn_check_reached_def stake_block_check_flags accepted_def stake_block_kind
      example_view_def stake_index_fields example_rewards with_money_def word_sless_alt)

lemma example_absent:
  "mn_payment_absent example_params (stake_block 11) (stake_index 1100000) 1900000000"
  "mn_payment_absent example_params (stake_block 11) (stake_index 1099999) 1900001000"
  by (simp_all add: mn_payment_absent_def example_mn_payment stake_block_def
      example_coinstake_def)


lemma example_enforced:
  "payee_enforced example_params (example_view\<lparr>isMasternodeListSynced := synced\<rparr>)
     (stake_index h) (- 1) = synced"
  by (simp add: payee_enforced_def example_view_def example_params_def stake_index_fields
      word_sless_alt)

lemma example_persisted:
  "persisted (example_view\<lparr>isMasternodeListSynced := synced\<rparr>) pindex False"
  by (simp add: persisted_def example_view_def)

lemma example_heights:
  "ENFORCE_MN_PAYMENT_HEIGHT \<le>s 1100000"
  "1099999 <s ENFORCE_MN_PAYMENT_HEIGHT"
  by (simp_all add: ENFORCE_MN_PAYMENT_HEIGHT_def word_sle_eq word_sless_alt)

theorem ConnectBlock_masternode_amount_witness:
  "mn_check_reached example_env example_params (example_view\<lparr>isMasternodeListSynced := False\<rparr>)
     (stake_block 11) (stake_index 1100000) False = Some 1900000000
   \<and> mn_payment_absent example_params (stake_block 11) (stake_index 1100000) 1900000000
   \<and> ENFORCE_MN_PAYMENT_HEIGHT \<le>s nHeight (stake_index 1100000)
   \<and> fst (ConnectBlock example_env example_params
            (example_view\<lparr>isMasternodeListSynced := False\<rparr>)
            (stake_block 11) (stake_index 1100000) False False (- 1))
       = DoS 100 ''Stake does not pay masternode expected amount''
   \<and> mn_check_reached example_env example_params (example_view\<lparr>isMasternodeListSynced := False\<rparr>)
     (stake_block 11) (stake_index 1099999) False = Some 1900001000
   \<and> mn_payment_absent example_params (stake_block 11) (stake_index 1099999) 1900001000
   \<and> nHeight (stake_index 1099999) <s ENFORCE_MN_PAYMENT_HEIGHT
   \<and> \<not> payee_enforced example_params (example_view\<lparr>isMasternodeListSynced := False\<rparr>)
         (stake_index 1099999) (- 1)
   \<and> persisted (example_view\<lparr>isMasternodeListSynced := False\<rparr>) (stake_index 1099999) False
   \<and> fst (ConnectBlock example_env example_params
            (example_view\<lparr>isMasternodeListSynced := False\<rparr>)
            (stake_block 11) (stake_index 1099999) False False (- 1))
       = Inr ()"
proof -
  let ?v = "example_view\<lparr>isMasternodeListSynced := False\<rparr>"
  have h: "ENFORCE_MN_PAYMENT_HEIGHT \<le>s nHeight (stake_index 1100000)"
    "nHeight (stake_index 1099999) <s ENFORCE_MN_PAYMENT_HEIGHT"
    by (simp_all add: stake_index_fields example_heights)
  have ne: "\<not> payee_enforced example_params ?v (stake_index 1099999) (- 1)"
    by (simp add: example_enforced)
  have dos: "sint (ucast (SPORK_4_PAYMENT_ENFORCEMENT_DOS_VALUE ?v) :: int32) = 100"
    by (simp add: example_view_def)
  note a = ConnectBlock_masternode_amount [OF example_reached(1) example_absent(1),
      of False False "- 1"]
  note b = ConnectBlock_masternode_amount [OF example_reached(2) example_absent(2),
      of False False "- 1"]
  from a h(1) have ra: "fst (ConnectBlock example_env example_params ?v
            (stake_block 11) (stake_index 1100000) False False (- 1))
       = DoS 100 ''Stake does not pay masternode expected amount''"
    by (simp only: dos simp_thms)
  from b h(2) ne example_persisted [of False "stake_index 1099999"]
  have rb: "fst (ConnectBlock example_env example_params ?v
            (stake_block 11) (stake_index 1099999) False False (- 1)) = Inr ()"
    by blast
  from ra rb h ne example_reached [of False] example_absent
    example_persisted [of False "stake_index 1099999"]
  show ?thesis by blast
qed

text \<open>
  C9 as stated fails below \<open>ENFORCE_MN_PAYMENT_HEIGHT\<close> on a node with the masternode
  list synced and spork 2 active: at height \<open>ENFORCE_MN_PAYMENT_HEIGHT - 1\<close> the check
  of the amount only logs, but the check of the payee that follows rejects the recent
  block without a masternode payment, with the DoS score of spork 4.
\<close>

theorem ConnectBlock_masternode_counterexample:
  "mn_check_reached example_env example_params example_view
     (stake_block 11) (stake_index 1099999) False = Some 1900001000
   \<and> mn_payment_absent example_params (stake_block 11) (stake_index 1099999) 1900001000
   \<and> nHeight (stake_index 1099999) = 1099999
   \<and> ENFORCE_MN_PAYMENT_HEIGHT = 1100000
   \<and> sint (ucast (SPORK_4_PAYMENT_ENFORCEMENT_DOS_VALUE example_view) :: int32) = 100
   \<and> fst (ConnectBlock example_env example_params example_view
            (stake_block 11) (stake_index 1099999) False True (- 1))
       = DoS 100 ''Masternode payment missing or is not valid''"
proof -
  have v: "example_view\<lparr>isMasternodeListSynced := True\<rparr> = example_view"
    by (simp add: example_view_def)
  note r = example_reached(2) [of True, unfolded v]
  have h: "\<not> ENFORCE_MN_PAYMENT_HEIGHT \<le>s nHeight (stake_index 1099999)"
    by (simp add: stake_index_fields ENFORCE_MN_PAYMENT_HEIGHT_def word_sle_eq)
  have payee: "ConnectBlock_payee example_params example_view (stake_index 1099999) (- 1) False []
               = DoS 100 ''Masternode payment missing or is not valid''"
    by (simp add: ConnectBlock_payee_def example_view_def example_params_def stake_index_fields
        word_sless_alt DoS_def)
  have "fst (ConnectBlock example_env example_params example_view
            (stake_block 11) (stake_index 1099999) False True (- 1))
       = DoS 100 ''Masternode payment missing or is not valid''"
    unfolding ConnectBlock_reached [OF r] ConnectBlock_payments_absent [OF example_absent(2)]
    using h by (simp add: payee DoS_def)
  with r example_absent(2) show ?thesis
    by (simp add: stake_index_fields ENFORCE_MN_PAYMENT_HEIGHT_def example_view_def)
qed

subsection \<open>Reorganize and the memory pool\<close>

lemma disconnect_all_Inr:
  "disconnect_all v ps = Inr txs \<Longrightarrow>
   \<exists>bs. map (rv_ReadFromDisk v) ps = map Some bs
      \<and> list_all2 (rv_DisconnectBlock v) bs ps
      \<and> txs = filter (\<lambda>tx. \<not> IsCoinBase tx \<and> \<not> IsCoinStake tx) (concat (map vtx bs))"
proof (induction ps arbitrary: txs)
  case Nil
  then show ?case by simp
next
  case (Cons p ps)
  from Cons.prems obtain b rest where b: "rv_ReadFromDisk v p = Some b"
    and d: "rv_DisconnectBlock v b p"
    and r: "disconnect_all v ps = Inr rest"
    and t: "txs = filter (\<lambda>tx. \<not> (IsCoinBase tx \<or> IsCoinStake tx)) (vtx b) @ rest"
    by (auto split: option.splits if_splits sum.splits)
  from Cons.IH [OF r] obtain bs where bs: "map (rv_ReadFromDisk v) ps = map Some bs"
    "list_all2 (rv_DisconnectBlock v) bs ps"
    "rest = filter (\<lambda>tx. \<not> IsCoinBase tx \<and> \<not> IsCoinStake tx) (concat (map vtx bs))"
    by blast
  have "map (rv_ReadFromDisk v) (p # ps) = map Some (b # bs)" using b bs(1) by simp
  moreover have "list_all2 (rv_DisconnectBlock v) (b # bs) (p # ps)" using d bs(2) by simp
  moreover have "txs = filter (\<lambda>tx. \<not> IsCoinBase tx \<and> \<not> IsCoinStake tx)
                         (concat (map vtx (b # bs)))"
    using t bs(3) by simp
  ultimately show ?case by blast
qed

lemma connect_all_Inr:
  "connect_all v k ps = Inr txs \<Longrightarrow>
   \<exists>bs. map (rv_ReadFromDisk v) ps = map Some bs
      \<and> list_all2 (\<lambda>b p. rv_ConnectBlock v b p k) bs ps
      \<and> txs = concat (map vtx bs)"
proof (induction ps arbitrary: txs)
  case Nil
  then show ?case by simp
next
  case (Cons p ps)
  from Cons.prems obtain b rest where b: "rv_ReadFromDisk v p = Some b"
    and d: "rv_ConnectBlock v b p k"
    and r: "connect_all v k ps = Inr rest"
    and t: "txs = vtx b @ rest"
    by (auto split: option.splits if_splits sum.splits)
  from Cons.IH [OF r] obtain bs where bs: "map (rv_ReadFromDisk v) ps = map Some bs"
    "list_all2 (\<lambda>b p. rv_ConnectBlock v b p k) bs ps"
    "rest = concat (map vtx bs)"
    by blast
  have "map (rv_ReadFromDisk v) (p # ps) = map Some (b # bs)" using b bs(1) by simp
  moreover have "list_all2 (\<lambda>b p. rv_ConnectBlock v b p k) (b # bs) (p # ps)"
    using d bs(2) by simp
  moreover have "txs = concat (map vtx (b # bs))" using t bs(3) by simp
  ultimately show ?case by blast
qed

lemma Reorganize_success:
  assumes "Reorganize v ix pindexBest pindexNew postponedBlocks = Some (Inr (), ix', calls)"
  shows "\<exists>pfork vDisconnect vConnect vResurrect vDelete.
      find_fork ix pindexBest pindexNew = Some (Inr pfork)
    \<and> walk_to ix pfork pindexBest = Some vDisconnect
    \<and> walk_to ix pfork pindexNew = Some (rev vConnect)
    \<and> disconnect_all v vDisconnect = Inr vResurrect
    \<and> connect_all v postponedBlocks vConnect = Inr vDelete
    \<and> ix' = link_all vConnect (unlink_all vDisconnect ix)
    \<and> calls = map AcceptToMemoryPool vResurrect
              @ concat (map (\<lambda>tx. [mempool_remove tx, mempool_removeConflicts tx]) vDelete)"
proof -
  from assms obtain pfork where f: "find_fork ix pindexBest pindexNew = Some (Inr pfork)"
    by (auto simp: Reorganize_def split: option.splits sum.splits)
  from assms f obtain vDisconnect where d: "walk_to ix pfork pindexBest = Some vDisconnect"
    by (auto simp: Reorganize_def split: option.splits)
  from assms f d obtain vConnect0 where c: "walk_to ix pfork pindexNew = Some vConnect0"
    by (auto simp: Reorganize_def split: option.splits)
  from assms obtain vResurrect where r: "disconnect_all v vDisconnect = Inr vResurrect"
    by (cases "disconnect_all v vDisconnect") (simp_all add: Reorganize_def f d c)
  from assms obtain vDelete where x: "connect_all v postponedBlocks (rev vConnect0) = Inr vDelete"
    by (cases "connect_all v postponedBlocks (rev vConnect0)")
       (simp_all add: Reorganize_def f d c r)
  from assms have "ix' = link_all (rev vConnect0) (unlink_all vDisconnect ix)
      \<and> calls = map AcceptToMemoryPool vResurrect
              @ concat (map (\<lambda>tx. [mempool_remove tx, mempool_removeConflicts tx]) vDelete)"
    by (simp add: Reorganize_def f d c r x error_def split: if_splits)
  with f d c r x show ?thesis
    by (intro exI [of _ pfork] exI [of _ vDisconnect] exI [of _ "rev vConnect0"]
        exI [of _ vResurrect] exI [of _ vDelete]) simp
qed

text \<open>
  C3. After a successful \<open>Reorganize\<close>, with \<open>vDisconnect\<close> the nodes from the old best
  node back to the fork and \<open>vConnect\<close> the nodes from the fork to the new node, whose
  blocks have been read from disk, disconnected and connected: the calls into the memory
  pool are \<open>AcceptToMemoryPool\<close> for exactly the transactions of the disconnected blocks
  that are neither coinbase nor coinstake (its result is not read), followed by
  \<open>remove\<close> and \<open>removeConflicts\<close> for every transaction of the connected blocks.
\<close>

theorem Reorganize_mempool:
  assumes "Reorganize v ix pindexBest pindexNew postponedBlocks = Some (Inr (), ix', calls)"
  shows "\<exists>pfork vDisconnect vConnect disconnected connected.
      find_fork ix pindexBest pindexNew = Some (Inr pfork)
    \<and> walk_to ix pfork pindexBest = Some vDisconnect
    \<and> walk_to ix pfork pindexNew = Some (rev vConnect)
    \<and> map (rv_ReadFromDisk v) vDisconnect = map Some disconnected
    \<and> map (rv_ReadFromDisk v) vConnect = map Some connected
    \<and> list_all2 (rv_DisconnectBlock v) disconnected vDisconnect
    \<and> list_all2 (\<lambda>b p. rv_ConnectBlock v b p postponedBlocks) connected vConnect
    \<and> calls = map AcceptToMemoryPool
                 (filter (\<lambda>tx. \<not> IsCoinBase tx \<and> \<not> IsCoinStake tx)
                         (concat (map vtx disconnected)))
              @ concat (map (\<lambda>tx. [mempool_remove tx, mempool_removeConflicts tx])
                            (concat (map vtx connected)))"
proof -
  from Reorganize_success [OF assms] obtain pfork vDisconnect vConnect vResurrect vDelete
    where s: "find_fork ix pindexBest pindexNew = Some (Inr pfork)"
      "walk_to ix pfork pindexBest = Some vDisconnect"
      "walk_to ix pfork pindexNew = Some (rev vConnect)"
      "disconnect_all v vDisconnect = Inr vResurrect"
      "connect_all v postponedBlocks vConnect = Inr vDelete"
      "calls = map AcceptToMemoryPool vResurrect
              @ concat (map (\<lambda>tx. [mempool_remove tx, mempool_removeConflicts tx]) vDelete)"
    by blast
  from disconnect_all_Inr [OF s(4)] obtain disconnected where
    d: "map (rv_ReadFromDisk v) vDisconnect = map Some disconnected"
      "list_all2 (rv_DisconnectBlock v) disconnected vDisconnect"
      "vResurrect = filter (\<lambda>tx. \<not> IsCoinBase tx \<and> \<not> IsCoinStake tx)
                           (concat (map vtx disconnected))"
    by blast
  from connect_all_Inr [OF s(5)] obtain connected where
    c: "map (rv_ReadFromDisk v) vConnect = map Some connected"
      "list_all2 (\<lambda>b p. rv_ConnectBlock v b p postponedBlocks) connected vConnect"
      "vDelete = concat (map vtx connected)"
    by blast
  from s(1,2,3) d(1,2) c(1,2) s(6) [unfolded d(3) c(3)] show ?thesis by blast
qed


text \<open>The loops that fill \<open>vDisconnect\<close> and \<open>vConnect\<close> yield the nodes from the
  node back to the fork, and they end whenever the fork is behind the node.\<close>

lemma walk_to_is_path:
  assumes "walk_to ix pfork pindex = Some xs"
  shows "is_path ix pindex xs pfork"
  by (rule walk_to.raw_induct [where P = "\<lambda>ix pfork pindex xs. is_path ix pindex xs pfork",
        OF _ assms])
     (auto split: if_splits option.splits simp: bind_eq_Some_conv)

lemma is_path_walk_to:
  "is_path ix pindex xs pfork \<Longrightarrow> walk_to ix pfork pindex = Some xs"
proof (induction xs arbitrary: pindex)
  case Nil
  then have "pindex = pfork" by simp
  then show ?case by (simp add: walk_to.simps [of ix pfork pfork])
next
  case (Cons x xs)
  from Cons.prems obtain p where p: "x = pindex" "pindex \<noteq> pfork" "ix_pprev ix pindex = Some p"
    "is_path ix p xs pfork"
    by (auto split: option.splits)
  from Cons.IH [OF p(4)] p(1,2,3) show ?case
    by (simp add: walk_to.simps [of ix pfork pindex])
qed

lemma reach_walk_to:
  assumes "(pindex, pfork) \<in> (pprev_rel ix)\<^sup>*"
  shows "\<exists>xs. walk_to ix pfork pindex = Some xs"
  using assms
proof (induction rule: converse_rtrancl_induct)
  case base
  show ?case by (simp add: walk_to.simps [of ix pfork pfork])
next
  case (step y z)
  then obtain xs where xs: "walk_to ix pfork z = Some xs" by blast
  from step(1) have "ix_pprev ix y = Some z" by (simp add: pprev_rel_def)
  with xs show ?case by (simp add: walk_to.simps [of ix pfork y])
qed

lemma climb_reach:
  assumes "climb ix pfork plonger = Some (Some pl)"
  shows "(plonger, pl) \<in> (pprev_rel ix)\<^sup>*"
proof -
  have "case r of None \<Rightarrow> True | Some pl \<Rightarrow> (plonger, pl) \<in> (pprev_rel ix)\<^sup>*"
    if asm: "climb ix pfork plonger = Some r" for r
  proof (rule climb.raw_induct [where P = "\<lambda>ix pfork plonger r.
          case r of None \<Rightarrow> True | Some pl \<Rightarrow> (plonger, pl) \<in> (pprev_rel ix)\<^sup>*", OF _ asm],
      goal_cases)
    case (1 cl ix pfork plonger r)
    show ?case
    proof (cases "ix_nHeight ix pfork <s ix_nHeight ix plonger")
      case False
      with 1(2) show ?thesis by auto
    next
      case True
      show ?thesis
      proof (cases "ix_pprev ix plonger")
        case None
        with 1(2) True show ?thesis by auto
      next
        case (Some p)
        with 1(2) True have rec: "cl ix pfork p = Some r" by simp
        have st: "(plonger, p) \<in> pprev_rel ix" using Some by (simp add: pprev_rel_def)
        from 1(1) [OF rec] st show ?thesis
          by (auto split: option.splits intro: converse_rtrancl_into_rtrancl)
      qed
    qed
  qed
  from this [OF assms] show ?thesis by simp
qed

lemma find_fork_reach:
  assumes "find_fork ix pindexBest pindexNew = Some (Inr pfork)"
  shows "(pindexBest, pfork) \<in> (pprev_rel ix)\<^sup>* \<and> (pindexNew, pfork) \<in> (pprev_rel ix)\<^sup>*"
proof -
  have "case r of Inl f \<Rightarrow> True
         | Inr pfork \<Rightarrow> (a, pfork) \<in> (pprev_rel ix)\<^sup>* \<and> (b, pfork) \<in> (pprev_rel ix)\<^sup>*"
    if asm: "find_fork ix a b = Some r" for a b r
  proof (rule find_fork.raw_induct [where P = "\<lambda>ix a b r.
          case r of Inl f \<Rightarrow> True
          | Inr pfork \<Rightarrow> (a, pfork) \<in> (pprev_rel ix)\<^sup>* \<and> (b, pfork) \<in> (pprev_rel ix)\<^sup>*",
        OF _ asm], goal_cases)
    case (1 ff ix a b r)
    show ?case
    proof (cases "a = b")
      case True
      with 1(2) show ?thesis by auto
    next
      case False
      with 1(2) obtain c where c: "climb ix a b = Some c"
        by (auto split: option.splits)
      show ?thesis
      proof (cases c)
        case None
        with 1(2) False c show ?thesis by auto
      next
        case (Some pl)
        note pl = climb_reach [OF c [unfolded Some]]
        show ?thesis
        proof (cases "a = pl")
          case True
          with 1(2) False c Some pl show ?thesis by auto
        next
          case ne: False
          show ?thesis
          proof (cases "ix_pprev ix a")
            case None
            with 1(2) False c Some ne show ?thesis by auto
          next
            case (Some pf)
            with 1(2) False c \<open>c = Some pl\<close> ne have rec: "ff ix pf pl = Some r" by simp
            from 1(1) [OF rec] have ih: "case r of Inl f \<Rightarrow> True
               | Inr pfork \<Rightarrow> (pf, pfork) \<in> (pprev_rel ix)\<^sup>* \<and> (pl, pfork) \<in> (pprev_rel ix)\<^sup>*" .
            have st: "(a, pf) \<in> pprev_rel ix" using Some by (simp add: pprev_rel_def)
            show ?thesis
            proof (cases r)
              case (Inl f)
              then show ?thesis by simp
            next
              case (Inr pfork)
              with ih have "(pf, pfork) \<in> (pprev_rel ix)\<^sup>*" "(pl, pfork) \<in> (pprev_rel ix)\<^sup>*"
                by simp_all
              with st pl have "(a, pfork) \<in> (pprev_rel ix)\<^sup>*" "(b, pfork) \<in> (pprev_rel ix)\<^sup>*"
                by (auto intro: converse_rtrancl_into_rtrancl rtrancl_trans)
              with Inr show ?thesis by simp
            qed
          qed
        qed
      qed
    qed
  qed
  from this [OF assms] show ?thesis by simp
qed

text \<open>\<open>Reorganize\<close> returns whenever the search for the fork ends.\<close>

lemma Reorganize_returns:
  assumes "find_fork ix pindexBest pindexNew = Some r"
  shows "\<exists>res. Reorganize v ix pindexBest pindexNew postponedBlocks = Some res"
proof (cases r)
  case (Inl f)
  with assms show ?thesis by (simp add: Reorganize_def)
next
  case (Inr pfork)
  from find_fork_reach [OF assms [unfolded Inr]] reach_walk_to
  obtain xs ys where w: "walk_to ix pfork pindexBest = Some xs" "walk_to ix pfork pindexNew = Some ys"
    by blast
  show ?thesis
    unfolding Reorganize_def assms Inr
    by (simp add: w Let_def split: sum.split)
qed


text \<open>In an index without an infinite chain of predecessors the search for the fork
  ends, and \<open>Reorganize\<close> returns.\<close>

lemma climb_terminates:
  assumes "wf ((pprev_rel ix)\<inverse>)"
  shows "\<exists>r. climb ix pfork plonger = Some r"
  using assms
proof (induction plonger rule: wf_induct_rule)
  case (less plonger)
  show ?case
  proof (cases "ix_nHeight ix pfork <s ix_nHeight ix plonger")
    case False
    then show ?thesis by (simp add: climb.simps [of ix pfork plonger])
  next
    case True
    show ?thesis
    proof (cases "ix_pprev ix plonger")
      case None
      with True show ?thesis by (simp add: climb.simps [of ix pfork plonger])
    next
      case (Some p)
      then have "(p, plonger) \<in> (pprev_rel ix)\<inverse>" by (simp add: pprev_rel_def)
      from less.IH [OF this] obtain r where "climb ix pfork p = Some r" by blast
      with True Some show ?thesis by (simp add: climb.simps [of ix pfork plonger])
    qed
  qed
qed

lemma find_fork_terminates:
  assumes "wf ((pprev_rel ix)\<inverse>)"
  shows "\<exists>r. find_fork ix pfork plonger = Some r"
  using assms
proof (induction pfork arbitrary: plonger rule: wf_induct_rule)
  case (less pfork)
  from climb_terminates [OF assms] obtain c where c: "climb ix pfork plonger = Some c" by blast
  show ?case
  proof (cases "pfork = plonger")
    case True
    then show ?thesis by (subst find_fork.simps) simp
  next
    case False
    show ?thesis
    proof (cases c)
      case None
      with False c show ?thesis by (subst find_fork.simps) simp
    next
      case (Some pl)
      show ?thesis
      proof (cases "pfork = pl")
        case True
        with False c Some show ?thesis by (subst find_fork.simps) simp
      next
        case ne: False
        show ?thesis
        proof (cases "ix_pprev ix pfork")
          case None
          with False c Some ne show ?thesis
            by (subst find_fork.simps) simp
        next
          case pf: (Some pf)
          then have "(pf, pfork) \<in> (pprev_rel ix)\<inverse>" by (simp add: pprev_rel_def)
          from less.IH [OF this] obtain r where "find_fork ix pf pl = Some r" by blast
          with False c Some ne pf show ?thesis
            by (subst find_fork.simps) simp
        qed
      qed
    qed
  qed
qed

lemma Reorganize_terminates:
  assumes "wf ((pprev_rel ix)\<inverse>)"
  shows "\<exists>res. Reorganize v ix pindexBest pindexNew postponedBlocks = Some res"
proof -
  from find_fork_terminates [OF assms] obtain r where
    "find_fork ix pindexBest pindexNew = Some r" by blast
  then show ?thesis by (rule Reorganize_returns)
qed

lemma example_kinds:
  "IsCoinBase example_coinbase" "\<not> IsCoinStake example_coinbase"
  "IsCoinBase stake_coinbase"
  "\<not> IsCoinBase example_coinstake" "IsCoinStake example_coinstake"
  "\<not> IsCoinBase example_tx" "\<not> IsCoinStake example_tx"
  "\<not> IsCoinBase dust_tx" "\<not> IsCoinStake dust_tx"
  by (simp_all add: IsCoinBase_def IsCoinStake_def example_coinbase_def stake_coinbase_def
      example_coinstake_def example_tx_def dust_tx_def null_outpoint_def IsNull_def IsEmpty_def
      word_sless_alt)

lemma fork_index_fields:
  "ix_pprev fork_index 10 = None" "ix_pprev fork_index 11 = Some 10"
  "ix_pprev fork_index 12 = Some 11" "ix_pprev fork_index 21 = Some 10"
  "ix_pprev fork_index 22 = Some 21" "ix_pprev fork_index 23 = Some 22"
  "ix_nHeight fork_index 10 = 100" "ix_nHeight fork_index 11 = 101"
  "ix_nHeight fork_index 12 = 102" "ix_nHeight fork_index 21 = 101"
  "ix_nHeight fork_index 22 = 102" "ix_nHeight fork_index 23 = 103"
  by (simp_all add: fork_index_def)

lemma fork_index_fork: "find_fork fork_index 12 23 = Some (Inr 10)"
proof -
  have c1: "climb fork_index 12 23 = Some (Some 22)"
    by (simp add: climb.simps [of fork_index 12 23] climb.simps [of fork_index 12 22]
        fork_index_fields word_sless_alt)
  have c2: "climb fork_index 11 22 = Some (Some 21)"
    by (simp add: climb.simps [of fork_index 11 22] climb.simps [of fork_index 11 21]
        fork_index_fields word_sless_alt)
  have c3: "climb fork_index 10 21 = Some (Some 10)"
    by (simp add: climb.simps [of fork_index 10 21] climb.simps [of fork_index 10 10]
        fork_index_fields word_sless_alt)
  show ?thesis
    by (simp add: find_fork.simps [of fork_index 12 23] find_fork.simps [of fork_index 11 22]
        find_fork.simps [of fork_index 10 21] c1 c2 c3 fork_index_fields)
qed

lemma fork_index_paths:
  "walk_to fork_index 10 12 = Some [12, 11]"
  "walk_to fork_index 10 23 = Some [23, 22, 21]"
  by (rule is_path_walk_to, simp add: fork_index_fields)+

lemma fork_run:
  "Reorganize fork_view fork_index 12 23 (- 1) =
     Some (Inr (), link_all [21, 22, 23] (unlink_all [12, 11] fork_index),
           [AcceptToMemoryPool dust_tx, AcceptToMemoryPool example_tx,
            mempool_remove example_coinbase, mempool_removeConflicts example_coinbase,
            mempool_remove example_coinbase, mempool_removeConflicts example_coinbase,
            mempool_remove example_tx, mempool_removeConflicts example_tx,
            mempool_remove stake_coinbase, mempool_removeConflicts stake_coinbase,
            mempool_remove example_coinstake, mempool_removeConflicts example_coinstake])"
proof -
  have d: "disconnect_all fork_view [12, 11] = Inr [dust_tx, example_tx]"
    by (simp add: fork_view_def fork_blocks_def example_kinds)
  have c: "connect_all fork_view (- 1) [21, 22, 23] =
           Inr [example_coinbase, example_coinbase, example_tx, stake_coinbase, example_coinstake]"
    by (simp add: fork_view_def fork_blocks_def)
  have w: "rv_WriteHashBestChain fork_view" "rv_TxnCommit fork_view"
    by (simp_all add: fork_view_def)
  show ?thesis
    by (simp add: Reorganize_def fork_index_fork fork_index_paths Let_def d c w
        del: disconnect_all.simps connect_all.simps)
qed

lemma fork_links:
  "map (ix_pnext (link_all [21, 22, 23] (unlink_all [12, 11] fork_index))) [10, 11, 12, 21, 22, 23]
   = [Some 21, None, None, Some 22, Some 23, None]"
  by (simp add: link_all_def unlink_all_def fork_index_def)

theorem Reorganize_mempool_witness:
  "Reorganize fork_view fork_index 12 23 (- 1) =
     Some (Inr (), link_all [21, 22, 23] (unlink_all [12, 11] fork_index),
           [AcceptToMemoryPool dust_tx, AcceptToMemoryPool example_tx,
            mempool_remove example_coinbase, mempool_removeConflicts example_coinbase,
            mempool_remove example_coinbase, mempool_removeConflicts example_coinbase,
            mempool_remove example_tx, mempool_removeConflicts example_tx,
            mempool_remove stake_coinbase, mempool_removeConflicts stake_coinbase,
            mempool_remove example_coinstake, mempool_removeConflicts example_coinstake])
   \<and> (\<exists>pfork vDisconnect vConnect disconnected connected.
        find_fork fork_index 12 23 = Some (Inr pfork)
      \<and> walk_to fork_index pfork 12 = Some vDisconnect
      \<and> walk_to fork_index pfork 23 = Some (rev vConnect)
      \<and> map (rv_ReadFromDisk fork_view) vDisconnect = map Some disconnected
      \<and> map (rv_ReadFromDisk fork_view) vConnect = map Some connected
      \<and> [AcceptToMemoryPool dust_tx, AcceptToMemoryPool example_tx,
          mempool_remove example_coinbase, mempool_removeConflicts example_coinbase,
          mempool_remove example_coinbase, mempool_removeConflicts example_coinbase,
          mempool_remove example_tx, mempool_removeConflicts example_tx,
          mempool_remove stake_coinbase, mempool_removeConflicts stake_coinbase,
          mempool_remove example_coinstake, mempool_removeConflicts example_coinstake]
        = map AcceptToMemoryPool
            (filter (\<lambda>tx. \<not> IsCoinBase tx \<and> \<not> IsCoinStake tx) (concat (map vtx disconnected)))
          @ concat (map (\<lambda>tx. [mempool_remove tx, mempool_removeConflicts tx])
                        (concat (map vtx connected))))"
  using Reorganize_mempool [OF fork_run] fork_run by blast

end
